theory Spec2Isabelle
  imports Complex_Main
begin

section \<open>Python values, exceptions and the logged world\<close>

text \<open>
  A Python \<open>str\<close> is represented by the bytes of its UTF-8 encoding (\<open>string\<close> is a list
  of 8-bit characters); two \<open>str\<close> values are equal exactly when their encodings are.
  A \<open>Path\<close> is the text of the path.
\<close>

type_synonym path = string

text \<open>
  The exceptions that the program raises itself or receives from a library call. Each carries
  the text that \<open>str(e)\<close> shows. \<open>RequestException\<close> stands for the whole class
  \<open>requests.exceptions.RequestException\<close> (connection errors, timeouts and the
  \<open>HTTPError\<close> of \<open>raise_for_status\<close>); \<open>LibraryError\<close> is any other exception of
  an external library (moviepy, PIL, the Google API client).
\<close>

datatype error =
    EnvironmentError string
  | RequestException string
  | ConnectionError string
  | ValueError string
  | JSONDecodeError string
  | KeyError string
  | IndexError string
  | TypeError string
  | AttributeError string
  | IsADirectoryError string
  | FileNotFoundError string
  | LibraryError string

fun str_error :: "error \<Rightarrow> string" where
  "str_error (EnvironmentError m) = m"
| "str_error (RequestException m) = m"
| "str_error (ConnectionError m) = m"
| "str_error (ValueError m) = m"
| "str_error (JSONDecodeError m) = m"
| "str_error (KeyError k) = [CHR 0x27] @ k @ [CHR 0x27]"
| "str_error (IndexError m) = m"
| "str_error (TypeError m) = m"
| "str_error (AttributeError m) = m"
| "str_error (IsADirectoryError m) = m"
| "str_error (FileNotFoundError m) = m"
| "str_error (LibraryError m) = m"

fun is_request_exception :: "error \<Rightarrow> bool" where
  "is_request_exception (RequestException m) = True"
| "is_request_exception e = False"

text \<open>Decimal text of a number, as an f-string prints an \<open>int\<close>.\<close>

fun show_nat :: "nat \<Rightarrow> string" where
  "show_nat n = (if n < 10 then [''0123456789'' ! n]
                 else show_nat (n div 10) @ [''0123456789'' ! (n mod 10)])"

definition show_int :: "int \<Rightarrow> string" where
  "show_int i = (if i < 0 then CHR ''-'' # show_nat (nat (- i)) else show_nat (nat i))"

text \<open>
  A decoded JSON document. An object is the decoded \<open>dict\<close>, written as an association
  list whose keys are distinct.
\<close>

datatype json =
    JNull
  | JBool bool
  | JNum int
  | JFloat real
  | JStr string
  | JArr "json list"
  | JObj "(string \<times> json) list"

text \<open>Python truthiness (\<open>not v\<close> is its negation).\<close>

fun truthy :: "json \<Rightarrow> bool" where
  "truthy JNull = False"
| "truthy (JBool b) = b"
| "truthy (JNum n) = (n \<noteq> 0)"
| "truthy (JFloat x) = (x \<noteq> 0)"
| "truthy (JStr s) = (s \<noteq> [])"
| "truthy (JArr xs) = (xs \<noteq> [])"
| "truthy (JObj kvs) = (kvs \<noteq> [])"

text \<open>\<open>d.get(key, default)\<close>: only a \<open>dict\<close> has the method.\<close>

fun dict_get :: "json \<Rightarrow> string \<Rightarrow> json \<Rightarrow> error + json" where
  "dict_get (JObj kvs) k d = (case map_of kvs k of None \<Rightarrow> Inr d | Some v \<Rightarrow> Inr v)"
| "dict_get j k d = Inl (AttributeError ''object has no attribute get'')"

text \<open>\<open>v[key]\<close> with a \<open>str\<close> key.\<close>

fun getitem :: "json \<Rightarrow> string \<Rightarrow> error + json" where
  "getitem (JObj kvs) k = (case map_of kvs k of None \<Rightarrow> Inl (KeyError k) | Some v \<Rightarrow> Inr v)"
| "getitem (JArr xs) k = Inl (TypeError ''list indices must be integers or slices, not str'')"
| "getitem (JStr s) k = Inl (TypeError ''string indices must be integers'')"
| "getitem j k = Inl (TypeError ''object is not subscriptable'')"

text \<open>
  The code points of a \<open>str\<close>: every lead byte with the continuation bytes
  (\<open>0x80\<close> to \<open>0xBF\<close>) that follow it.
\<close>

definition is_cont :: "char \<Rightarrow> bool" where
  "is_cont c = (128 \<le> (of_char c :: nat) \<and> (of_char c :: nat) < 192)"

function utf8_chars :: "string \<Rightarrow> string list" where
  "utf8_chars [] = []"
| "utf8_chars (c # cs) = (c # takeWhile is_cont cs) # utf8_chars (dropWhile is_cont cs)"
  by pat_completeness auto
termination
  by (relation "measure length") (auto simp: length_dropWhile_le less_Suc_eq_le)

text \<open>\<open>v[0]\<close>. The keys of a decoded JSON object are strings, so the key \<open>0\<close> is absent.\<close>

fun getitem0 :: "json \<Rightarrow> error + json" where
  "getitem0 (JArr []) = Inl (IndexError ''list index out of range'')"
| "getitem0 (JArr (x # xs)) = Inr x"
| "getitem0 (JStr s) = (case utf8_chars s of
       [] \<Rightarrow> Inl (IndexError ''string index out of range'')
     | c # cs \<Rightarrow> Inr (JStr c))"
| "getitem0 (JObj kvs) = Inl (KeyError ''0'')"
| "getitem0 j = Inl (TypeError ''object is not subscriptable'')"

text \<open>
  \<open>str(v)\<close>, as an f-string and \<open>requests\<close> apply it. The text of a float and of a
  container follows Python's \<open>repr\<close>, which is taken as a parameter.
\<close>

fun py_str :: "(json \<Rightarrow> string) \<Rightarrow> json \<Rightarrow> string" where
  "py_str r (JStr s) = s"
| "py_str r (JNum n) = show_int n"
| "py_str r (JBool b) = (if b then ''True'' else ''False'')"
| "py_str r JNull = ''None''"
| "py_str r j = r j"

text \<open>
  \<open>random.choice(seq)\<close> is \<open>seq[randbelow(len(seq))]\<close> and raises \<open>IndexError\<close> on an
  empty sequence. The draw is the parameter \<open>r\<close>; \<open>r mod length xs\<close> ranges over exactly
  the indices \<open>randbelow\<close> can return.
\<close>

definition choice :: "nat \<Rightarrow> 'a list \<Rightarrow> error + 'a" where
  "choice r xs = (if xs = [] then Inl (IndexError ''Cannot choose from an empty sequence'')
                  else Inr (xs ! (r mod length xs)))"

text \<open>
  \<open>random.choice\<close> on a decoded JSON value: a list gives an element, a \<open>str\<close> one of its
  characters; indexing a \<open>dict\<close> by an integer is a \<open>KeyError\<close>; the other values have
  no \<open>len\<close>.
\<close>

fun choice_json :: "nat \<Rightarrow> json \<Rightarrow> error + json" where
  "choice_json r (JArr xs) = choice r xs"
| "choice_json r (JStr s) = map_sum id JStr (choice r (utf8_chars s))"
| "choice_json r (JObj kvs) =
     (if kvs = [] then Inl (IndexError ''Cannot choose from an empty sequence'')
      else Inl (KeyError (show_nat (r mod length kvs))))"
| "choice_json r j = Inl (TypeError ''object has no len()'')"

subsection \<open>Requests, files and the world\<close>

datatype level = INFO | WARNING | ERROR

datatype node = File string | Dir

record search_params =
  query :: string
  orientation :: string
  per_page :: int
  min_duration :: int
  max_duration :: int

text \<open>
  The two GET requests of the program: the search (URL, \<open>Authorization\<close> header,
  parameters) and the download (URL, timeout in seconds).
\<close>

datatype request =
    SearchGet string "string option" search_params
  | DownloadGet string nat

record response =
  status_code :: nat
  content :: string
  body_json :: "json option"

record status =
  privacyStatus :: string
  selfDeclaredMadeForKids :: bool

record snippet =
  s_title :: string
  s_description :: string
  categoryId :: string
  s_tags :: "string list"

record body =
  b_snippet :: snippet
  b_status :: status

datatype api_call =
    VideosInsert string body path
  | ThumbnailsSet json path

text \<open>
  What a run can observe and change: the files, the log, and the traces of the GET requests
  issued, the files written, the frame timestamps sampled, the platform calls made and the
  files removed.
\<close>

record world =
  fs :: "path \<rightharpoonup> node"
  logs :: "(level \<times> string) list"
  requests :: "request list"
  written :: "path list"
  frames :: "real list"
  api_calls :: "api_call list"
  unlinked :: "path list"

definition logging :: "level \<Rightarrow> string \<Rightarrow> world \<Rightarrow> world" where
  "logging l m w = w\<lparr>logs := logs w @ [(l, m)]\<rparr>"

text \<open>
  \<open>try: ... except Exception as e: logging.error(f"<prefix>{str(e)}"); raise\<close>
\<close>

definition logged :: "string \<Rightarrow> (error + 'a) \<times> world \<Rightarrow> (error + 'a) \<times> world" where
  "logged prefix rw = (case fst rw of
       Inl e \<Rightarrow> (Inl e, logging ERROR (prefix @ str_error e) (snd rw))
     | Inr v \<Rightarrow> rw)"

text \<open>
  \<open>with open(path, "wb") as f: f.write(content)\<close>: opening a directory for writing is
  an error; otherwise the file holds the content afterwards.
\<close>

definition write_file :: "world \<Rightarrow> path \<Rightarrow> string \<Rightarrow> error + world" where
  "write_file w p c = (case fs w p of
       Some Dir \<Rightarrow> Inl (IsADirectoryError p)
     | _ \<Rightarrow> Inr (w\<lparr>fs := (fs w)(p \<mapsto> File c), written := written w @ [p]\<rparr>))"

text \<open>\<open>response.raise_for_status()\<close>: an \<open>HTTPError\<close> for a 4xx or 5xx status.\<close>

definition raise_for_status :: "response \<Rightarrow> error option" where
  "raise_for_status r =
     (if 400 \<le> status_code r \<and> status_code r < 600
      then Some (RequestException (''HTTP Error '' @ show_nat (status_code r)))
      else None)"

section \<open>Config\<close>

record config =
  pexels_api_key :: "string option"
  youtube_client_secret :: "string option"
  youtube_client_id :: "string option"
  youtube_refresh_token :: "string option"
  default_hashtags :: "string list"

definition truthy_str :: "string option \<Rightarrow> bool" where
  "truthy_str v = (case v of None \<Rightarrow> False | Some s \<Rightarrow> s \<noteq> [])"

definition validate :: "config \<Rightarrow> error option" where
  "validate c =
     (if \<not> list_all truthy_str [pexels_api_key c, youtube_client_id c,
                                 youtube_client_secret c, youtube_refresh_token c]
      then Some (EnvironmentError ''Missing required environment variables'')
      else None)"

definition Config_init :: "(string \<Rightarrow> string option) \<Rightarrow> error + config" where
  "Config_init getenv =
     (let c = \<lparr>pexels_api_key = getenv ''PEXELS_API_KEY'',
                youtube_client_secret = getenv ''YOUTUBE_CLIENT_SECRET'',
                youtube_client_id = getenv ''YOUTUBE_CLIENT_ID'',
                youtube_refresh_token = getenv ''YOUTUBE_REFRESH_TOKEN'',
                default_hashtags = [''#Shorts'', ''#Viral'', ''#Trending'']\<rparr>
      in case validate c of Some e \<Rightarrow> Inl e | None \<Rightarrow> Inr c)"

section \<open>External collaborators\<close>

text \<open>
  A clip as the editor sees it: its duration in seconds, its frame size, the caption laid
  over it and the audio track set on it (the file and the volume factor).
\<close>

record clip =
  duration :: real
  width :: real
  height :: real
  caption :: "string option"
  audio :: "(path \<times> real) option"

text \<open>
  A frame of a clip, as the array that \<open>get_frame\<close> returns, and an image with the texts
  drawn on it so far: position, text and fill colour.
\<close>

record frame =
  frame_width :: int
  frame_height :: int

record image =
  img_width :: int
  img_height :: int
  drawn :: "((int \<times> int) \<times> string \<times> (nat \<times> nat \<times> nat)) list"

text \<open>
  The directories of the program, and the libraries and services it calls, as the answers
  they give:
  \<^item> \<open>net n req\<close>: the outcome of the GET request \<open>req\<close> when \<open>n\<close> requests were
    issued before it (an exception of \<open>session.get\<close>, or the response);
  \<^item> \<open>py_repr\<close>: Python's text of a float or a container;
  \<^item> \<open>music_listing\<close>: \<open>None\<close> when \<open>CONTENT_DIR / "music"\<close> does not exist, and
    otherwise the result of its \<open>glob("*.mp3")\<close>;
  \<^item> \<open>open_clip\<close>, \<open>text_clip\<close>, \<open>open_audio\<close>, \<open>write_videofile\<close>:
    \<open>VideoFileClip(path)\<close>, \<open>TextClip(text, font=...)\<close>, \<open>AudioFileClip(path)\<close> and
    \<open>clip.write_videofile(path, ...)\<close>, each with the exception it raises, if any; the
    encoder gives the bytes of the file it writes;
  \<^item> \<open>fl\<close>: the rounding of the arithmetic of doubles, \<open>fl x\<close> being the double next
    to the real number \<open>x\<close>; the sum of two doubles is \<open>fl (x + y)\<close>, and so for the
    difference and the product;
  \<^item> \<open>get_frame\<close>, \<open>fromarray\<close>, \<open>image_draw\<close>, \<open>textbbox\<close>, \<open>text_error\<close>,
    \<open>save_image\<close>: \<open>clip.get_frame(t)\<close>, \<open>Image.fromarray(frame)\<close>,
    \<open>ImageDraw.Draw(img)\<close>, \<open>draw.textbbox((0,0), text, font)\<close>, \<open>draw.text(...)\<close>
    and \<open>img.save(path)\<close>, each with the exception it raises, if any;
  \<^item> \<open>media_file_upload\<close>, \<open>thumbnails_set\<close>: \<open>MediaFileUpload(path)\<close> and the
    execution of \<open>thumbnails().set(...)\<close>, with the exception they raise, if any;
  \<^item> \<open>next_chunk n\<close>: the outcome of the \<open>n\<close>-th call of \<open>request.next_chunk()\<close>, an
    exception or the pair of the progress (if any) and the response (if any).
\<close>

record env =
  content_dir :: path
  temp_dir :: path
  font :: string
  net :: "nat \<Rightarrow> request \<Rightarrow> error + response"
  py_repr :: "json \<Rightarrow> string"
  music_listing :: "path list option"
  open_clip :: "path \<Rightarrow> error + clip"
  text_clip :: "string \<Rightarrow> string \<Rightarrow> error option"
  open_audio :: "path \<Rightarrow> error option"
  write_videofile :: "clip \<Rightarrow> path \<Rightarrow> error + string"
  fl :: "real \<Rightarrow> real"
  get_frame :: "clip \<Rightarrow> real \<Rightarrow> error + frame"
  fromarray :: "frame \<Rightarrow> error + image"
  image_draw :: "image \<Rightarrow> error option"
  textbbox :: "string \<Rightarrow> error + int \<times> int \<times> int \<times> int"
  text_error :: "image \<Rightarrow> int \<times> int \<Rightarrow> string \<Rightarrow> error option"
  save_image :: "image \<Rightarrow> path \<Rightarrow> error + string"
  media_file_upload :: "path \<Rightarrow> error option"
  next_chunk :: "nat \<Rightarrow> error + (real option \<times> json option)"
  thumbnails_set :: "json \<Rightarrow> path \<Rightarrow> error option"

text \<open>The random draws of one run.\<close>

record rng =
  video_draw :: nat
  music_draw :: nat
  frame_draw :: real

section \<open>ContentDownloader\<close>

definition warn_attempt :: "nat \<Rightarrow> error \<Rightarrow> world \<Rightarrow> world" where
  "warn_attempt attempt ex w =
     logging WARNING (''Download attempt '' @ show_nat (attempt + 1) @ '' failed: '' @ str_error ex) w"

text \<open>
  The loop \<open>for attempt in range(3)\<close> of \<open>_download_file\<close>, over the attempts that are
  left. Only a \<open>RequestException\<close> is caught; any other exception leaves the loop.
\<close>

fun download_attempts :: "env \<Rightarrow> string \<Rightarrow> path \<Rightarrow> nat list \<Rightarrow> world \<Rightarrow> (error + path) \<times> world" where
  "download_attempts e url p [] w =
     (Inl (ConnectionError (''Failed to download '' @ url @ '' after 3 attempts'')), w)"
| "download_attempts e url p (attempt # rest) w =
     (let w1 = w\<lparr>requests := requests w @ [DownloadGet url 10]\<rparr> in
      case net e (length (requests w)) (DownloadGet url 10) of
        Inl ex \<Rightarrow>
          if is_request_exception ex then download_attempts e url p rest (warn_attempt attempt ex w1)
          else (Inl ex, w1)
      | Inr resp \<Rightarrow>
          (case raise_for_status resp of
             Some ex \<Rightarrow> download_attempts e url p rest (warn_attempt attempt ex w1)
           | None \<Rightarrow>
               (case write_file w1 p (content resp) of
                  Inl ex \<Rightarrow> (Inl ex, w1)
                | Inr w2 \<Rightarrow> (Inr p, w2))))"

text \<open>
  \<open>_download_file\<close>. The path \<open>CONTENT_DIR / filename\<close> is the directory, a slash and
  the file name; the names that the program passes start with \<open>pexels_\<close>, so they are
  never absolute.
\<close>

definition download_file :: "env \<Rightarrow> world \<Rightarrow> string \<Rightarrow> string \<Rightarrow> (error + path) \<times> world" where
  "download_file e w url filename =
     download_attempts e url (content_dir e @ ''/'' @ filename) [0..<3] w"

text \<open>
  The last two statements of \<open>get_pexels_video\<close>: the link of the first file of the chosen
  video, and its download under the name \<open>pexels_<id>.mp4\<close>.
\<close>

definition fetch_selected :: "env \<Rightarrow> world \<Rightarrow> json \<Rightarrow> (error + path) \<times> world" where
  "fetch_selected e w video =
     (case getitem video ''video_files'' of Inl ex \<Rightarrow> (Inl ex, w) | Inr files \<Rightarrow>
     (case getitem0 files of Inl ex \<Rightarrow> (Inl ex, w) | Inr f \<Rightarrow>
     (case getitem f ''link'' of Inl ex \<Rightarrow> (Inl ex, w) | Inr video_file \<Rightarrow>
     (case getitem video ''id'' of Inl ex \<Rightarrow> (Inl ex, w) | Inr vid \<Rightarrow>
        download_file e w (py_str (py_repr e) video_file)
          (''pexels_'' @ py_str (py_repr e) vid @ ''.mp4'')))))"

definition search_request :: "config \<Rightarrow> string \<Rightarrow> int \<Rightarrow> request" where
  "search_request cfg q d =
     SearchGet ''https://api.pexels.com/videos/search'' (pexels_api_key cfg)
       \<lparr>query = q, orientation = ''portrait'', per_page = 20,
        min_duration = d - 2, max_duration = d + 2\<rparr>"

definition get_pexels_video ::
  "env \<Rightarrow> config \<Rightarrow> world \<Rightarrow> nat \<Rightarrow> string \<Rightarrow> int \<Rightarrow> (error + path) \<times> world" where
  "get_pexels_video e cfg w r q d =
     logged ''Pexels video fetch failed: ''
       (let req = search_request cfg q d;
            w1 = w\<lparr>requests := requests w @ [req]\<rparr> in
        (case net e (length (requests w)) req of Inl ex \<Rightarrow> (Inl ex, w1) | Inr resp \<Rightarrow>
        (case raise_for_status resp of Some ex \<Rightarrow> (Inl ex, w1) | None \<Rightarrow>
        (case body_json resp of
           None \<Rightarrow> (Inl (JSONDecodeError ''response is not valid JSON''), w1)
         | Some j \<Rightarrow>
        (case dict_get j ''videos'' (JArr []) of Inl ex \<Rightarrow> (Inl ex, w1) | Inr videos \<Rightarrow>
          if \<not> truthy videos then (Inl (ValueError ''No videos found matching criteria''), w1)
          else (case choice_json r videos of Inl ex \<Rightarrow> (Inl ex, w1)
                | Inr video \<Rightarrow> fetch_selected e w1 video))))))"

section \<open>VideoEditor\<close>

text \<open>
  \<open>clip.resize(height=h)\<close> keeps the aspect ratio (a clip read from a file has a positive
  height); \<open>clip.crop\<close> cuts a rectangle.
\<close>

definition resize_height :: "clip \<Rightarrow> real \<Rightarrow> clip" where
  "resize_height c h = c\<lparr>width := width c * h / height c, height := h\<rparr>"

definition crop :: "clip \<Rightarrow> real \<Rightarrow> real \<Rightarrow> real \<Rightarrow> real \<Rightarrow> clip" where
  "crop c x1 y1 x2 y2 = c\<lparr>width := x2 - x1, height := y2 - y1\<rparr>"

text \<open>
  The background music of \<open>process_video\<close>: when the music directory exists, one of its
  tracks is chosen and set as the audio at volume 0.3.
\<close>

definition add_music :: "env \<Rightarrow> nat \<Rightarrow> clip \<Rightarrow> error + clip" where
  "add_music e r final_clip =
     (case music_listing e of
        None \<Rightarrow> Inr final_clip
      | Some tracks \<Rightarrow>
          (case choice r tracks of Inl ex \<Rightarrow> Inl ex | Inr music \<Rightarrow>
          (case open_audio e music of Some ex \<Rightarrow> Inl ex
           | None \<Rightarrow> Inr (final_clip\<lparr>audio := Some (music, 3 / 10)\<rparr>))))"

definition process_video ::
  "env \<Rightarrow> world \<Rightarrow> nat \<Rightarrow> path \<Rightarrow> path \<Rightarrow> string \<Rightarrow> (error + path) \<times> world" where
  "process_video e w r input_path output_path text =
     logged ''Video processing failed: ''
       (case open_clip e input_path of Inl ex \<Rightarrow> (Inl ex, w) | Inr clip0 \<Rightarrow>
        let clip1 = resize_height clip0 1920;
            clip2 = crop clip1 (width clip1 / 2 - 540) 0 (width clip1 / 2 + 540) 1920 in
        (case text_clip e text (font e) of Some ex \<Rightarrow> (Inl ex, w) | None \<Rightarrow>
        (case add_music e r (clip2\<lparr>caption := Some text\<rparr>) of Inl ex \<Rightarrow> (Inl ex, w)
         | Inr final_clip \<Rightarrow>
        (case write_videofile e final_clip output_path of Inl ex \<Rightarrow> (Inl ex, w)
         | Inr encoded \<Rightarrow>
            (Inr output_path,
             w\<lparr>fs := (fs w)(output_path \<mapsto> File encoded),
               written := written w @ [output_path]\<rparr>)))))"

section \<open>ThumbnailGenerator\<close>

text \<open>
  \<open>random.uniform(a, b)\<close> is \<open>a + (b - a) * random()\<close> in doubles: the difference, the
  product and the sum are each rounded. \<open>random()\<close> is a double in \<open>[0, 1)\<close>; the draw
  is the parameter \<open>u\<close>, and \<open>rnd\<close> is the rounding.
\<close>

definition uniform :: "(real \<Rightarrow> real) \<Rightarrow> real \<Rightarrow> real \<Rightarrow> real \<Rightarrow> real" where
  "uniform rnd a b u = rnd (a + rnd (rnd (b - a) * u))"

text \<open>\<open>draw.text(pos, text, font=..., fill=...)\<close>\<close>

definition draw_text ::
  "env \<Rightarrow> image \<Rightarrow> int \<times> int \<Rightarrow> string \<Rightarrow> nat \<times> nat \<times> nat \<Rightarrow> error + image" where
  "draw_text e img pos s fill =
     (case text_error e img pos s of
        Some ex \<Rightarrow> Inl ex
      | None \<Rightarrow> Inr (img\<lparr>drawn := drawn img @ [(pos, s, fill)]\<rparr>))"

text \<open>The loop \<open>for offset in [...]\<close> that draws the stroke, over the offsets that are left.\<close>

fun draw_strokes ::
  "env \<Rightarrow> image \<Rightarrow> int \<times> int \<Rightarrow> string \<Rightarrow> (int \<times> int) list \<Rightarrow> error + image" where
  "draw_strokes e img pos s [] = Inr img"
| "draw_strokes e img pos s (off # rest) =
     (case draw_text e img (fst pos + fst off, snd pos + snd off) s (0, 0, 0) of
        Inl ex \<Rightarrow> Inl ex
      | Inr img' \<Rightarrow> draw_strokes e img' pos s rest)"

text \<open>
  \<open>generate\<close>. The duration of a clip is a double, and so is \<open>clip.duration - 1\<close>. The
  timestamp is recorded when it is passed to \<open>get_frame\<close>.
\<close>

definition generate ::
  "env \<Rightarrow> world \<Rightarrow> real \<Rightarrow> path \<Rightarrow> path \<Rightarrow> string \<Rightarrow> (error + path) \<times> world" where
  "generate e w u video_path output_path text =
     logged ''Thumbnail generation failed: ''
       (case open_clip e video_path of Inl ex \<Rightarrow> (Inl ex, w) | Inr clip \<Rightarrow>
        let timestamp = uniform (fl e) 1 (fl e (duration clip - 1)) u;
            w1 = w\<lparr>frames := frames w @ [timestamp]\<rparr> in
        (case get_frame e clip timestamp of Inl ex \<Rightarrow> (Inl ex, w1) | Inr frame \<Rightarrow>
        (case fromarray e frame of Inl ex \<Rightarrow> (Inl ex, w1) | Inr img \<Rightarrow>
        (case image_draw e img of Some ex \<Rightarrow> (Inl ex, w1) | None \<Rightarrow>
        (case textbbox e text of Inl ex \<Rightarrow> (Inl ex, w1) | Inr bbox \<Rightarrow>
        let text_width = fst (snd (snd bbox)) - fst bbox;
            text_height = snd (snd (snd bbox)) - fst (snd bbox);
            position = ((img_width img - text_width) div 2, (img_height img - text_height) div 2) in
        (case draw_strokes e img position text [(-2, -2), (-2, 2), (2, -2), (2, 2)] of
           Inl ex \<Rightarrow> (Inl ex, w1)
         | Inr stroked \<Rightarrow>
        (case draw_text e stroked position text (255, 255, 255) of Inl ex \<Rightarrow> (Inl ex, w1)
         | Inr final \<Rightarrow>
        (case save_image e final output_path of Inl ex \<Rightarrow> (Inl ex, w1)
         | Inr encoded \<Rightarrow>
            (Inr output_path,
             w1\<lparr>fs := (fs w1)(output_path \<mapsto> File encoded),
                written := written w1 @ [output_path]\<rparr>)))))))))"

section \<open>YouTubeUploader\<close>

text \<open>
  The metadata dictionary: each key may be absent. \<open>metadata["title"]\<close> needs the key;
  the others are read with \<open>get\<close> and a default.
\<close>

record metadata =
  title :: "string option"
  description :: "string option"
  tags :: "string list option"
  niche :: "string option"

text \<open>\<open>sep.join(xs)\<close>\<close>

fun join :: "string \<Rightarrow> string list \<Rightarrow> string" where
  "join sep [] = []"
| "join sep [x] = x"
| "join sep (x # y # ys) = x @ sep @ join sep (y # ys)"

definition build_description :: "config \<Rightarrow> metadata \<Rightarrow> string" where
  "build_description cfg md =
     join [CHR 0x0A]
       [case description md of None \<Rightarrow> [] | Some d \<Rightarrow> d,
        [],
        join '' '' (default_hashtags cfg),
        ''#'' @ filter (\<lambda>c. c \<noteq> CHR '' '')
                 (case niche md of None \<Rightarrow> ''content'' | Some n \<Rightarrow> n)]"

definition build_body :: "config \<Rightarrow> metadata \<Rightarrow> error + body" where
  "build_body cfg md =
     (case title md of
        None \<Rightarrow> Inl (KeyError ''title'')
      | Some t \<Rightarrow>
          Inr \<lparr>b_snippet = \<lparr>s_title = t,
                            s_description = build_description cfg md,
                            categoryId = ''24'',
                            s_tags = (case tags md of None \<Rightarrow> [] | Some ts \<Rightarrow> ts)\<rparr>,
               b_status = \<lparr>privacyStatus = ''public'', selfDeclaredMadeForKids = False\<rparr>\<rparr>)"

text \<open>\<open>int(x)\<close> truncates towards zero.\<close>

definition py_int :: "real \<Rightarrow> int" where
  "py_int x = (if 0 \<le> x then \<lfloor>x\<rfloor> else \<lceil>x\<rceil>)"

definition log_progress :: "real option \<Rightarrow> world \<Rightarrow> world" where
  "log_progress st w =
     (case st of
        None \<Rightarrow> w
      | Some p \<Rightarrow> logging INFO (''Upload progress: '' @ show_int (py_int (p * 100)) @ ''%'') w)"

text \<open>
  The loop \<open>while not response\<close> of \<open>_execute_upload\<close>, from the \<open>n\<close>-th call of
  \<open>next_chunk\<close> on. It ends when a call raises or gives a truthy response; when no call
  does, it runs forever, and the value is \<open>None\<close>.
\<close>

partial_function (option) execute_upload ::
  "env \<Rightarrow> nat \<Rightarrow> world \<Rightarrow> ((error + json) \<times> world) option" where
  "execute_upload e n w =
     (case next_chunk e n of
        Inl ex \<Rightarrow> Some (Inl ex, w)
      | Inr sr \<Rightarrow>
          (case snd sr of
             None \<Rightarrow> execute_upload e (Suc n) (log_progress (fst sr) w)
           | Some resp \<Rightarrow>
               if truthy resp then Some (Inr resp, log_progress (fst sr) w)
               else execute_upload e (Suc n) (log_progress (fst sr) w)))"

declare execute_upload.simps [code]

text \<open>
  What follows the upload in \<open>upload_video\<close>: the thumbnail call when a thumbnail path
  is given, and the result \<open>response["id"]\<close>.
\<close>

definition attach_thumbnail ::
  "env \<Rightarrow> world \<Rightarrow> json \<Rightarrow> path option \<Rightarrow> (error + json) \<times> world" where
  "attach_thumbnail e w resp thumbnail_path =
     (case thumbnail_path of
        None \<Rightarrow> (case getitem resp ''id'' of Inl ex \<Rightarrow> (Inl ex, w) | Inr vid \<Rightarrow> (Inr vid, w))
      | Some tp \<Rightarrow>
          (case getitem resp ''id'' of Inl ex \<Rightarrow> (Inl ex, w) | Inr vid \<Rightarrow>
          (case media_file_upload e tp of Some ex \<Rightarrow> (Inl ex, w) | None \<Rightarrow>
           let w1 = w\<lparr>api_calls := api_calls w @ [ThumbnailsSet vid tp]\<rparr> in
           (case thumbnails_set e vid tp of Some ex \<Rightarrow> (Inl ex, w1)
            | None \<Rightarrow> (Inr vid, w1)))))"

text \<open>The body of the \<open>try\<close> block of \<open>upload_video\<close>.\<close>

definition upload_steps ::
  "env \<Rightarrow> config \<Rightarrow> world \<Rightarrow> path \<Rightarrow> metadata \<Rightarrow> path option \<Rightarrow> ((error + json) \<times> world) option" where
  "upload_steps e cfg w video_path md thumbnail_path =
       (case build_body cfg md of Inl ex \<Rightarrow> Some (Inl ex, w) | Inr b \<Rightarrow>
       (case media_file_upload e video_path of Some ex \<Rightarrow> Some (Inl ex, w) | None \<Rightarrow>
       (case execute_upload e 0
               (w\<lparr>api_calls := api_calls w @ [VideosInsert ''snippet,status'' b video_path]\<rparr>) of
          None \<Rightarrow> None
        | Some rw \<Rightarrow>
            (case fst rw of
               Inl ex \<Rightarrow> Some (Inl ex, snd rw)
             | Inr resp \<Rightarrow> Some (attach_thumbnail e (snd rw) resp thumbnail_path)))))"

definition upload_video ::
  "env \<Rightarrow> config \<Rightarrow> world \<Rightarrow> path \<Rightarrow> metadata \<Rightarrow> path option \<Rightarrow> ((error + json) \<times> world) option" where
  "upload_video e cfg w video_path md thumbnail_path =
     map_option (logged ''Upload failed: '') (upload_steps e cfg w video_path md thumbnail_path)"

section \<open>ContentScheduler\<close>

text \<open>
  \<open>str.capitalize()\<close> on ASCII text: the first character in upper case, the rest in lower
  case. Bytes outside the ASCII letters are kept as they are.
\<close>

definition upper_char :: "char \<Rightarrow> char" where
  "upper_char c = (if 97 \<le> (of_char c :: nat) \<and> (of_char c :: nat) \<le> 122
                   then char_of ((of_char c :: nat) - 32) else c)"

definition lower_char :: "char \<Rightarrow> char" where
  "lower_char c = (if 65 \<le> (of_char c :: nat) \<and> (of_char c :: nat) \<le> 90
                   then char_of ((of_char c :: nat) + 32) else c)"

definition capitalize :: "string \<Rightarrow> string" where
  "capitalize s = (case s of [] \<Rightarrow> [] | c # cs \<Rightarrow> upper_char c # map lower_char cs)"

text \<open>
  The last four characters of the two string literals of \<open>run_pipeline\<close>, as the source
  file holds them: U+00F0, U+0178, U+0161, U+20AC, in UTF-8. The rocket U+1F680 is the bytes
  \<open>F0 9F 9A 80\<close>.
\<close>

definition literal_tail :: string where
  "literal_tail = [CHR 0xC3, CHR 0xB0, CHR 0xC5, CHR 0xB8, CHR 0xC5, CHR 0xA1,
                   CHR 0xE2, CHR 0x82, CHR 0xAC]"

definition rocket :: string where
  "rocket = [CHR 0xF0, CHR 0x9F, CHR 0x9A, CHR 0x80]"

definition make_metadata :: "string \<Rightarrow> metadata" where
  "make_metadata n =
     \<lparr>title = Some (''5 Second '' @ capitalize n @ '' Hacks! '' @ literal_tail),
      description = Some (''Amazing '' @ n @ '' tips you need to try!''),
      tags = Some [n, ''shorts'', ''viral''],
      niche = Some n\<rparr>"

text \<open>\<open>path.unlink(missing_ok)\<close>\<close>

definition unlink :: "bool \<Rightarrow> world \<Rightarrow> path \<Rightarrow> error + world" where
  "unlink missing_ok w p =
     (case fs w p of
        None \<Rightarrow> if missing_ok then Inr w else Inl (FileNotFoundError p)
      | Some Dir \<Rightarrow> Inl (IsADirectoryError p)
      | Some (File c) \<Rightarrow> Inr (w\<lparr>fs := (fs w)(p := None), unlinked := unlinked w @ [p]\<rparr>))"

text \<open>The loop \<open>for f in [...]: f.unlink(missing_ok=True)\<close>\<close>

fun cleanup :: "world \<Rightarrow> path list \<Rightarrow> (error + unit) \<times> world" where
  "cleanup w [] = (Inr (), w)"
| "cleanup w (f # rest) =
     (case unlink True w f of Inl ex \<Rightarrow> (Inl ex, w) | Inr w' \<Rightarrow> cleanup w' rest)"

text \<open>
  The end of \<open>run_pipeline\<close>, after the upload has returned: the log entry, the cleanup
  and the result.
\<close>

definition finish ::
  "env \<Rightarrow> world \<Rightarrow> json \<Rightarrow> path list \<Rightarrow> (error + json) \<times> world" where
  "finish e w video_id files =
     (case cleanup (logging INFO (''Successfully uploaded video ID: '' @ py_str (py_repr e) video_id) w)
             files of
        (Inl ex, w') \<Rightarrow> (Inl ex, w')
      | (Inr u, w') \<Rightarrow> (Inr video_id, w'))"

text \<open>The body of the \<open>try\<close> block of \<open>run_pipeline\<close>.\<close>

definition run_stages ::
  "env \<Rightarrow> config \<Rightarrow> world \<Rightarrow> rng \<Rightarrow> string \<Rightarrow> string \<Rightarrow> ((error + json) \<times> world) option" where
  "run_stages e cfg w g n q =
       (case get_pexels_video e cfg w (video_draw g) q 15 of
          (Inl ex, w1) \<Rightarrow> Some (Inl ex, w1)
        | (Inr video_path, w1) \<Rightarrow>
       (case process_video e w1 (music_draw g) video_path (temp_dir e @ ''/processed.mp4'')
               (''5 SECONDS HACKS! '' @ literal_tail) of
          (Inl ex, w2) \<Rightarrow> Some (Inl ex, w2)
        | (Inr edited_path, w2) \<Rightarrow>
       (case generate e w2 (frame_draw g) edited_path (temp_dir e @ ''/thumbnail.jpg'')
               ''WATCH NOW!'' of
          (Inl ex, w3) \<Rightarrow> Some (Inl ex, w3)
        | (Inr thumbnail_path, w3) \<Rightarrow>
       (case upload_video e cfg w3 edited_path (make_metadata n) (Some thumbnail_path) of
          None \<Rightarrow> None
        | Some (Inl ex, w4) \<Rightarrow> Some (Inl ex, w4)
        | Some (Inr video_id, w4) \<Rightarrow>
            Some (finish e w4 video_id [video_path, edited_path, thumbnail_path])))))"

definition run_pipeline ::
  "env \<Rightarrow> config \<Rightarrow> world \<Rightarrow> rng \<Rightarrow> string \<Rightarrow> string \<Rightarrow> ((error + json) \<times> world) option" where
  "run_pipeline e cfg w g n q =
     map_option (logged ''Pipeline failed: '') (run_stages e cfg w g n q)"

section \<open>Notions used in the statements\<close>

text \<open>
  The \<open>n\<close>-th GET request, when it is the download of \<open>url\<close>, fails in the transport:
  \<open>session.get\<close> raises a \<open>RequestException\<close>, or the status is an error status. It
  succeeds with the content \<open>c\<close>: a response with a good status and that content.
\<close>

definition fails_at :: "env \<Rightarrow> string \<Rightarrow> nat \<Rightarrow> bool" where
  "fails_at e url n = (case net e n (DownloadGet url 10) of
       Inl ex \<Rightarrow> is_request_exception ex
     | Inr resp \<Rightarrow> raise_for_status resp \<noteq> None)"

definition succeeds_at :: "env \<Rightarrow> string \<Rightarrow> nat \<Rightarrow> string \<Rightarrow> bool" where
  "succeeds_at e url n c = (case net e n (DownloadGet url 10) of
       Inl ex \<Rightarrow> False
     | Inr resp \<Rightarrow> raise_for_status resp = None \<and> content resp = c)"

text \<open>The warnings in the log.\<close>

definition warnings :: "world \<Rightarrow> (level \<times> string) list" where
  "warnings w = filter (\<lambda>x. fst x = WARNING) (logs w)"

text \<open>A download request, with the timeout of 10 seconds.\<close>

definition is_download :: "request \<Rightarrow> bool" where
  "is_download x = (case x of DownloadGet u t \<Rightarrow> t = 10 | SearchGet u k ps \<Rightarrow> False)"

text \<open>
  From \<open>w\<close> to \<open>w'\<close> nothing was removed: the trace of removed files is the same, what
  existed still exists, no path became a directory, and when the files written before
  \<open>w\<close> were all on disk then so are the files written before \<open>w'\<close>.
\<close>

definition no_loss :: "world \<Rightarrow> world \<Rightarrow> bool" where
  "no_loss w w' \<longleftrightarrow>
     unlinked w' = unlinked w
   \<and> (\<forall>p. fs w p \<noteq> None \<longrightarrow> fs w' p \<noteq> None)
   \<and> (\<forall>p. fs w' p = Some Dir \<longrightarrow> fs w p = Some Dir)
   \<and> (set (written w) \<subseteq> dom (fs w) \<longrightarrow> set (written w') \<subseteq> dom (fs w'))"


text \<open>
  What the rounding of doubles to a nearest value has: it is monotone, it leaves a double as
  it is, and 0 and 1 are doubles.
\<close>

definition rounding :: "(real \<Rightarrow> real) \<Rightarrow> bool" where
  "rounding f \<longleftrightarrow>
     (\<forall>x y. x \<le> y \<longrightarrow> f x \<le> f y) \<and> (\<forall>x. f (f x) = f x) \<and> f 0 = 0 \<and> f 1 = 1"

text \<open>
  The address that \<open>get_pexels_video\<close> reads from a candidate: the link of its first
  file, when the candidate has the entries that the program reads.
\<close>

definition candidate_url :: "env \<Rightarrow> json \<Rightarrow> string option" where
  "candidate_url e v =
     (case getitem v ''video_files'' of Inl ex \<Rightarrow> None | Inr files \<Rightarrow>
     (case getitem0 files of Inl ex \<Rightarrow> None | Inr f \<Rightarrow>
     (case getitem f ''link'' of Inl ex \<Rightarrow> None | Inr video_file \<Rightarrow>
     (case getitem v ''id'' of Inl ex \<Rightarrow> None | Inr vid \<Rightarrow>
        Some (py_str (py_repr e) video_file)))))"

section \<open>Example environments\<close>

text \<open>
  A run in which everything works: the search finds one video, the download fails twice in
  the transport and then succeeds, the clip has 10 seconds, there is no music directory, and
  the upload reports progress twice before the response with the identifier. The arithmetic
  rounds to the next multiple of 2 to the power -52, which is the spacing of the doubles
  between 1 and 2.
\<close>

definition round52 :: "real \<Rightarrow> real" where
  "round52 x = of_int \<lfloor>x * 2 ^ 52 + 1 / 2\<rfloor> / 2 ^ 52"

definition net0 :: "nat \<Rightarrow> request \<Rightarrow> error + response" where
  "net0 n req = (case req of
      SearchGet u k ps \<Rightarrow>
        Inr \<lparr>status_code = 200, content = [],
             body_json = Some (JObj [(''videos'',
               JArr [JObj [(''id'', JNum 7),
                           (''video_files'', JArr [JObj [(''link'', JStr ''https://v/7.mp4'')]])]])])\<rparr>
    | DownloadGet u t \<Rightarrow>
        if n < 3 then Inl (RequestException ''timed out'')
        else Inr \<lparr>status_code = 200, content = ''mp4'', body_json = None\<rparr>)"

definition env0 :: env where
  "env0 = \<lparr>content_dir = ''content'', temp_dir = ''temp'', font = ''assets/Roboto-Bold.ttf'',
     net = net0, py_repr = (\<lambda>j. ''?''), music_listing = None,
     open_clip = (\<lambda>p. Inr \<lparr>duration = 10, width = 1080, height = 1920,
                              caption = None, audio = None\<rparr>),
     text_clip = (\<lambda>t f. None), open_audio = (\<lambda>p. None),
     write_videofile = (\<lambda>c p. Inr ''video''),
     fl = round52,
     get_frame = (\<lambda>c t. Inr \<lparr>frame_width = 1080, frame_height = 1920\<rparr>),
     fromarray = (\<lambda>f. Inr \<lparr>img_width = frame_width f, img_height = frame_height f,
                          drawn = []\<rparr>),
     image_draw = (\<lambda>i. None),
     textbbox = (\<lambda>t. Inr (0, 0, 400, 100)),
     text_error = (\<lambda>i p t. None),
     save_image = (\<lambda>i p. Inr ''jpeg''),
     media_file_upload = (\<lambda>p. None),
     next_chunk = (\<lambda>n. if n < 2 then Inr (Some (1 / 2), None)
                        else Inr (None, Some (JObj [(''id'', JStr ''abc123'')]))),
     thumbnails_set = (\<lambda>v p. None)\<rparr>"

definition world0 :: world where
  "world0 = \<lparr>fs = Map.empty, logs = [], requests = [], written = [], frames = [],
             api_calls = [], unlinked = []\<rparr>"

definition getenv0 :: "string \<Rightarrow> string option" where
  "getenv0 = [''PEXELS_API_KEY'' \<mapsto> ''key'', ''YOUTUBE_CLIENT_SECRET'' \<mapsto> ''secret'',
              ''YOUTUBE_CLIENT_ID'' \<mapsto> ''client'', ''YOUTUBE_REFRESH_TOKEN'' \<mapsto> ''token'']"

definition cfg0 :: config where
  "cfg0 = \<lparr>pexels_api_key = Some ''key'', youtube_client_secret = Some ''secret'',
     youtube_client_id = Some ''client'', youtube_refresh_token = Some ''token'',
     default_hashtags = [''#Shorts'', ''#Viral'', ''#Trending'']\<rparr>"

definition rng0 :: rng where
  "rng0 = \<lparr>video_draw = 5, music_draw = 3, frame_draw = 1 / 4\<rparr>"

text \<open>The state after the download, after the editing and after the thumbnail of that run.\<close>

definition world1 :: world where
  "world1 = world0\<lparr>
     fs := [''content/pexels_7.mp4'' \<mapsto> File ''mp4''],
     logs := [(WARNING, ''Download attempt 1 failed: timed out''),
              (WARNING, ''Download attempt 2 failed: timed out'')],
     requests := [search_request cfg0 ''exercise motivation'' 15,
                  DownloadGet ''https://v/7.mp4'' 10, DownloadGet ''https://v/7.mp4'' 10,
                  DownloadGet ''https://v/7.mp4'' 10],
     written := [''content/pexels_7.mp4'']\<rparr>"

definition world2 :: world where
  "world2 = world1\<lparr>
     fs := (fs world1)(''temp/processed.mp4'' \<mapsto> File ''video''),
     written := written world1 @ [''temp/processed.mp4'']\<rparr>"

definition world3 :: world where
  "world3 = world2\<lparr>
     fs := (fs world2)(''temp/thumbnail.jpg'' \<mapsto> File ''jpeg''),
     written := written world2 @ [''temp/thumbnail.jpg''],
     frames := [3]\<rparr>"

text \<open>A state with the downloaded and the processed file, and no thumbnail.\<close>

definition world_files :: world where
  "world_files = world0\<lparr>fs := [''content/pexels_7.mp4'' \<mapsto> File ''mp4'',
                                 ''temp/processed.mp4'' \<mapsto> File ''video'']\<rparr>"

text \<open>
  Variations: a server that answers every request with status 503; a search without
  results; an upload whose response has an empty identifier; an upload that breaks at the
  second chunk; a clip of 2 seconds; a clip of 3 seconds; a music directory without tracks;
  a search with three results, each downloaded at the first attempt.
\<close>

definition env_down :: env where
  "env_down = env0\<lparr>net := (\<lambda>n req. Inr \<lparr>status_code = 503, content = [], body_json = None\<rparr>)\<rparr>"

definition env_empty :: env where
  "env_empty = env0\<lparr>net := (\<lambda>n req. Inr \<lparr>status_code = 200, content = [],
       body_json = Some (JObj [(''videos'', JArr [])])\<rparr>)\<rparr>"


definition env_abort :: env where
  "env_abort = env0\<lparr>next_chunk := (\<lambda>n. if n = 0 then Inr (Some (1 / 2), None)
                                        else Inl (LibraryError ''HttpError 503''))\<rparr>"

definition env_short :: env where
  "env_short = env0\<lparr>open_clip := (\<lambda>p. Inr \<lparr>duration = 2, width = 1080, height = 1920,
                                              caption = None, audio = None\<rparr>)\<rparr>"

definition env_silent :: env where
  "env_silent = env0\<lparr>music_listing := Some []\<rparr>"

definition env_three_seconds :: env where
  "env_three_seconds = env0\<lparr>open_clip := (\<lambda>p. Inr \<lparr>duration = 3, width = 1080, height = 1920,
                                                      caption = None, audio = None\<rparr>)\<rparr>"

definition video_entry :: "int \<Rightarrow> string \<Rightarrow> json" where
  "video_entry i l = JObj [(''id'', JNum i), (''video_files'', JArr [JObj [(''link'', JStr l)]])]"

definition env_three :: env where
  "env_three = env0\<lparr>net := (\<lambda>n req. case req of
       SearchGet u k ps \<Rightarrow>
         Inr \<lparr>status_code = 200, content = [],
              body_json = Some (JObj [(''videos'',
                JArr [video_entry 7 ''https://v/7.mp4'', video_entry 8 ''https://v/8.mp4'',
                      video_entry 9 ''https://v/9.mp4''])])\<rparr>
     | DownloadGet u t \<Rightarrow> Inr \<lparr>status_code = 200, content = ''mp4'', body_json = None\<rparr>)\<rparr>"

text \<open>The largest double below 1, which \<open>random()\<close> can return.\<close>

definition draw_max :: real where
  "draw_max = 1 - 1 / 2 ^ 53"

section \<open>The example rounding\<close>

lemma round52_of_int: "round52 (of_int n) = of_int n"
proof -
  have "(of_int n :: real) * 2 ^ 52 + 1 / 2 = of_int (n * 2 ^ 52) + 1 / 2" by simp
  moreover have "\<lfloor>(of_int (n * 2 ^ 52) :: real) + 1 / 2\<rfloor> = n * 2 ^ 52" by linarith
  ultimately show ?thesis by (simp add: round52_def)
qed

lemma round52_numeral: "round52 (numeral k) = numeral k"
  using round52_of_int [of "numeral k"] by simp

lemma round52_0: "round52 0 = 0"
  using round52_of_int [of 0] by simp

lemma round52_1: "round52 1 = 1"
  using round52_of_int [of 1] by simp

lemma round52_draw_max: "round52 draw_max = 1"
proof -
  have "draw_max * 2 ^ 52 + 1 / 2 = of_int (2 ^ 52)" by (simp add: draw_max_def)
  then have "\<lfloor>draw_max * 2 ^ 52 + 1 / 2\<rfloor> = 2 ^ 52"
    by (metis floor_of_int)
  then show ?thesis by (simp add: round52_def)
qed

lemma draw_max_range: "0 \<le> draw_max" "draw_max < 1"
  by (simp_all add: draw_max_def)

lemma rounding_round52: "rounding round52"
proof -
  have mono: "round52 x \<le> round52 y" if "x \<le> y" for x y
  proof -
    from that have "\<lfloor>x * 2 ^ 52 + 1 / 2\<rfloor> \<le> \<lfloor>y * 2 ^ 52 + 1 / 2\<rfloor>"
      by (intro floor_mono) simp
    then show ?thesis by (simp add: round52_def divide_right_mono)
  qed
  have idem: "round52 (round52 x) = round52 x" for x
  proof -
    have "round52 x * 2 ^ 52 + 1 / 2 = of_int \<lfloor>x * 2 ^ 52 + 1 / 2\<rfloor> + 1 / 2"
      by (simp add: round52_def)
    moreover have "\<lfloor>(of_int \<lfloor>x * 2 ^ 52 + 1 / 2\<rfloor> :: real) + 1 / 2\<rfloor> = \<lfloor>x * 2 ^ 52 + 1 / 2\<rfloor>"
      by linarith
    ultimately show ?thesis by (simp add: round52_def)
  qed
  show ?thesis
    unfolding rounding_def using mono idem round52_0 round52_1 by blast
qed

section \<open>The download loop\<close>

lemma logging_simps:
  "fs (logging l m w) = fs w"
  "logs (logging l m w) = logs w @ [(l, m)]"
  "requests (logging l m w) = requests w"
  "written (logging l m w) = written w"
  "frames (logging l m w) = frames w"
  "api_calls (logging l m w) = api_calls w"
  "unlinked (logging l m w) = unlinked w"
  by (simp_all add: logging_def)

lemma warn_attempt_simps:
  "fs (warn_attempt a ex w) = fs w"
  "requests (warn_attempt a ex w) = requests w"
  "written (warn_attempt a ex w) = written w"
  "unlinked (warn_attempt a ex w) = unlinked w"
  "warnings (warn_attempt a ex w) = warnings w @ [(WARNING, ''Download attempt '' @ show_nat (a + 1) @ '' failed: '' @ str_error ex)]"
  by (simp_all add: warn_attempt_def logging_simps warnings_def)

lemma warnings_requests_update: "warnings (w\<lparr>requests := rs\<rparr>) = warnings w"
  by (simp add: warnings_def)

lemma download_attempts_bound:
  "\<exists>k\<le>length as. requests (snd (download_attempts e url p as w)) = requests w @ replicate k (DownloadGet url 10)"
proof (induction as arbitrary: w)
  case Nil
  show ?case by simp
next
  case (Cons a as)
  let ?w1 = "w\<lparr>requests := requests w @ [DownloadGet url 10]\<rparr>"
  have step: "\<exists>k\<le>length (a # as). requests (snd (download_attempts e url p as (warn_attempt a ex ?w1)))
      = requests w @ replicate k (DownloadGet url 10)" for ex
  proof -
    from Cons.IH [of "warn_attempt a ex ?w1"] obtain k where
      k: "k \<le> length as"
      "requests (snd (download_attempts e url p as (warn_attempt a ex ?w1)))
         = requests (warn_attempt a ex ?w1) @ replicate k (DownloadGet url 10)" by blast
    then have "requests (snd (download_attempts e url p as (warn_attempt a ex ?w1)))
         = requests w @ replicate (Suc k) (DownloadGet url 10)"
      by (simp add: warn_attempt_simps)
    with k(1) show ?thesis by (intro exI [of _ "Suc k"]) simp
  qed
  have one: "\<exists>k\<le>length (a # as). requests w @ [DownloadGet url 10] = requests w @ replicate k (DownloadGet url 10)"
    by (intro exI [of _ "Suc 0"]) simp
  show ?case
    using step one
    by (auto simp: Let_def write_file_def split: sum.splits option.splits node.splits)
qed

lemma download_attempts_exhausted:
  "\<forall>j<length as. fails_at e url (length (requests w) + j) \<Longrightarrow>
   fst (download_attempts e url p as w) = Inl (ConnectionError (''Failed to download '' @ url @ '' after 3 attempts''))
   \<and> requests (snd (download_attempts e url p as w)) = requests w @ replicate (length as) (DownloadGet url 10)
   \<and> length (warnings (snd (download_attempts e url p as w))) = length (warnings w) + length as
   \<and> fs (snd (download_attempts e url p as w)) = fs w
   \<and> written (snd (download_attempts e url p as w)) = written w"
proof (induction as arbitrary: w)
  case Nil
  show ?case by simp
next
  case (Cons a as)
  let ?w1 = "w\<lparr>requests := requests w @ [DownloadGet url 10]\<rparr>"
  from Cons.prems have here: "fails_at e url (length (requests w))"
    and later: "\<forall>j<length as. fails_at e url (Suc (length (requests w)) + j)" by force+
  have rec: "fst (download_attempts e url p as (warn_attempt a ex ?w1)) = Inl (ConnectionError (''Failed to download '' @ url @ '' after 3 attempts''))
   \<and> requests (snd (download_attempts e url p as (warn_attempt a ex ?w1))) = requests w @ replicate (length (a # as)) (DownloadGet url 10)
   \<and> length (warnings (snd (download_attempts e url p as (warn_attempt a ex ?w1)))) = length (warnings w) + length (a # as)
   \<and> fs (snd (download_attempts e url p as (warn_attempt a ex ?w1))) = fs w
   \<and> written (snd (download_attempts e url p as (warn_attempt a ex ?w1))) = written w" for ex
    using Cons.IH [of "warn_attempt a ex ?w1"] later
    by (simp add: warn_attempt_simps warnings_requests_update replicate_app_Cons_same)
  show ?case
  proof (cases "net e (length (requests w)) (DownloadGet url 10)")
    case (Inl ex)
    with here have "is_request_exception ex" by (simp add: fails_at_def)
    with Inl rec [of ex] show ?thesis by (simp add: Let_def)
  next
    case (Inr resp)
    with here obtain ex where "raise_for_status resp = Some ex" by (auto simp: fails_at_def)
    with Inr rec [of ex] show ?thesis by (simp add: Let_def)
  qed
qed

lemma download_attempts_first_success:
  "k < length as \<Longrightarrow> \<forall>j<k. fails_at e url (length (requests w) + j) \<Longrightarrow>
   succeeds_at e url (length (requests w) + k) c \<Longrightarrow> fs w p \<noteq> Some Dir \<Longrightarrow>
   fst (download_attempts e url p as w) = Inr p
   \<and> requests (snd (download_attempts e url p as w)) = requests w @ replicate (Suc k) (DownloadGet url 10)
   \<and> length (warnings (snd (download_attempts e url p as w))) = length (warnings w) + k
   \<and> fs (snd (download_attempts e url p as w)) = (fs w)(p \<mapsto> File c)
   \<and> written (snd (download_attempts e url p as w)) = written w @ [p]"
proof (induction as arbitrary: w k)
  case Nil
  then show ?case by simp
next
  case (Cons a as)
  let ?w1 = "w\<lparr>requests := requests w @ [DownloadGet url 10]\<rparr>"
  show ?case
  proof (cases k)
    case 0
    with Cons.prems(3) obtain resp where
      resp: "net e (length (requests w)) (DownloadGet url 10) = Inr resp"
        "raise_for_status resp = None" "content resp = c"
      by (auto simp: succeeds_at_def split: sum.splits)
    with 0 Cons.prems(4) show ?thesis
      by (auto simp: Let_def write_file_def warnings_def split: option.splits node.splits)
  next
    case (Suc k')
    with Cons.prems have here: "fails_at e url (length (requests w))"
      and k': "k' < length as"
      and later: "\<forall>j<k'. fails_at e url (Suc (length (requests w)) + j)"
      and ok: "succeeds_at e url (Suc (length (requests w)) + k') c" by force+
    have rec: "fst (download_attempts e url p as (warn_attempt a ex ?w1)) = Inr p
     \<and> requests (snd (download_attempts e url p as (warn_attempt a ex ?w1))) = requests w @ replicate (Suc k) (DownloadGet url 10)
     \<and> length (warnings (snd (download_attempts e url p as (warn_attempt a ex ?w1)))) = length (warnings w) + k
     \<and> fs (snd (download_attempts e url p as (warn_attempt a ex ?w1))) = (fs w)(p \<mapsto> File c)
     \<and> written (snd (download_attempts e url p as (warn_attempt a ex ?w1))) = written w @ [p]" for ex
    proof -
      have "fs (warn_attempt a ex ?w1) p \<noteq> Some Dir"
        using Cons.prems(4) by (simp add: warn_attempt_simps)
      moreover have "\<forall>j<k'. fails_at e url (length (requests (warn_attempt a ex ?w1)) + j)"
        using later by (simp add: warn_attempt_simps)
      moreover have "succeeds_at e url (length (requests (warn_attempt a ex ?w1)) + k') c"
        using ok by (simp add: warn_attempt_simps)
      ultimately have IH: "fst (download_attempts e url p as (warn_attempt a ex ?w1)) = Inr p
         \<and> requests (snd (download_attempts e url p as (warn_attempt a ex ?w1)))
             = requests (warn_attempt a ex ?w1) @ replicate (Suc k') (DownloadGet url 10)
         \<and> length (warnings (snd (download_attempts e url p as (warn_attempt a ex ?w1))))
             = length (warnings (warn_attempt a ex ?w1)) + k'
         \<and> fs (snd (download_attempts e url p as (warn_attempt a ex ?w1)))
             = (fs (warn_attempt a ex ?w1))(p \<mapsto> File c)
         \<and> written (snd (download_attempts e url p as (warn_attempt a ex ?w1)))
             = written (warn_attempt a ex ?w1) @ [p]"
        using Cons.IH [of k' "warn_attempt a ex ?w1" ] k' by blast
      have r: "requests (warn_attempt a ex ?w1) @ replicate (Suc k') (DownloadGet url 10)
            = requests w @ replicate (Suc k) (DownloadGet url 10)"
        using Suc by (simp add: warn_attempt_simps replicate_app_Cons_same)
      have l: "length (warnings (warn_attempt a ex ?w1)) + k' = length (warnings w) + k"
        using Suc by (simp add: warn_attempt_simps warnings_requests_update)
      have f: "fs (warn_attempt a ex ?w1) = fs w" "written (warn_attempt a ex ?w1) = written w"
        by (simp_all add: warn_attempt_simps)
      from IH show ?thesis unfolding r l f .
    qed
    show ?thesis
    proof (cases "net e (length (requests w)) (DownloadGet url 10)")
      case (Inl ex)
      with here have "is_request_exception ex" by (simp add: fails_at_def)
      with Inl rec [of ex] show ?thesis by (simp add: Let_def)
    next
      case (Inr resp)
      with here obtain ex where "raise_for_status resp = Some ex" by (auto simp: fails_at_def)
      with Inr rec [of ex] show ?thesis by (simp add: Let_def)
    qed
  qed
qed

lemma logged_simps:
  "fst (logged pre rw) = fst rw"
  "fs (snd (logged pre rw)) = fs (snd rw)"
  "requests (snd (logged pre rw)) = requests (snd rw)"
  "written (snd (logged pre rw)) = written (snd rw)"
  "frames (snd (logged pre rw)) = frames (snd rw)"
  "api_calls (snd (logged pre rw)) = api_calls (snd rw)"
  "unlinked (snd (logged pre rw)) = unlinked (snd rw)"
  by (cases rw; cases "fst rw"; simp add: logged_def logging_simps)+

lemma fetch_selected_requests:
  "\<exists>ds. requests (snd (fetch_selected e w video)) = requests w @ ds \<and> list_all is_download ds \<and> length ds \<le> 3"
proof -
  have d: "\<exists>ds. requests (snd (download_file e w url fn)) = requests w @ ds \<and> list_all is_download ds \<and> length ds \<le> 3" for url fn
  proof -
    from download_attempts_bound [of "[0..<3]" e url "content_dir e @ ''/'' @ fn" w]
    obtain k where "k \<le> 3"
      "requests (snd (download_file e w url fn)) = requests w @ replicate k (DownloadGet url 10)"
      by (auto simp: download_file_def)
    then show ?thesis
      by (intro exI [of _ "replicate k (DownloadGet url 10)"]) (simp add: list_all_iff is_download_def)
  qed
  have n: "\<exists>ds. requests w = requests w @ ds \<and> list_all is_download ds \<and> length ds \<le> 3"
    by (intro exI [of _ "[]"]) simp
  show ?thesis
    unfolding fetch_selected_def using d n
    by (simp split: sum.splits)
qed

lemma download_attempts_first_request:
  assumes "as \<noteq> []"
  shows "\<exists>ds. requests (snd (download_attempts e url p as w)) = requests w @ DownloadGet url 10 # ds"
proof -
  from assms obtain a rest where as: "as = a # rest" by (cases as) auto
  let ?w1 = "w\<lparr>requests := requests w @ [DownloadGet url 10]\<rparr>"
  have rec: "\<exists>ds. requests (snd (download_attempts e url p rest (warn_attempt a ex ?w1)))
               = requests w @ DownloadGet url 10 # ds" for ex
  proof -
    from download_attempts_bound [of rest e url p "warn_attempt a ex ?w1"] obtain k where
      "requests (snd (download_attempts e url p rest (warn_attempt a ex ?w1)))
         = requests (warn_attempt a ex ?w1) @ replicate k (DownloadGet url 10)" by blast
    then show ?thesis by (simp add: warn_attempt_simps)
  qed
  have wr: "requests w2 = requests w @ [DownloadGet url 10]" if "write_file ?w1 p c = Inr w2" for c w2
    using that by (auto simp: write_file_def split: option.splits node.splits)
  show ?thesis
    unfolding as using rec wr
    by (auto simp: Let_def split: sum.splits option.splits)
qed

lemma fetch_selected_first_request:
  assumes "candidate_url e v = Some url"
  shows "\<exists>ds. requests (snd (fetch_selected e w v)) = requests w @ DownloadGet url 10 # ds"
proof -
  have "[0..<3] \<noteq> []" by simp
  from download_attempts_first_request [OF this] assms show ?thesis
    by (auto simp: fetch_selected_def candidate_url_def download_file_def split: sum.splits)
qed

section \<open>Removing files\<close>

lemma unlink_not_dir:
  "fs w p \<noteq> Some Dir \<Longrightarrow> \<exists>w'. unlink True w p = Inr w' \<and> fs w' = (fs w)(p := None)
     \<and> logs w' = logs w \<and> requests w' = requests w \<and> written w' = written w
     \<and> frames w' = frames w \<and> api_calls w' = api_calls w"
  by (auto simp: unlink_def split: option.splits node.splits)

lemma unlink_missing: "fs w p = None \<Longrightarrow> unlink True w p = Inr w"
  by (simp add: unlink_def)

lemma cleanup_succeeds:
  "\<forall>p\<in>set ps. fs w p \<noteq> Some Dir \<Longrightarrow>
   fst (cleanup w ps) = Inr () \<and> (\<forall>p. fs (snd (cleanup w ps)) p = (if p \<in> set ps then None else fs w p))
   \<and> logs (snd (cleanup w ps)) = logs w"
proof (induction ps arbitrary: w)
  case Nil
  show ?case by simp
next
  case (Cons a ps)
  from Cons.prems have "fs w a \<noteq> Some Dir" by simp
  from unlink_not_dir [OF this] obtain w' where
    w': "unlink True w a = Inr w'" "fs w' = (fs w)(a := None)" "logs w' = logs w" by blast
  with Cons.prems have "\<forall>p\<in>set ps. fs w' p \<noteq> Some Dir" by simp
  from Cons.IH [OF this] w' show ?case by auto
qed

lemma cleanup_missing: "\<forall>p\<in>set ps. fs w p = None \<Longrightarrow> cleanup w ps = (Inr (), w)"
  by (induction ps arbitrary: w) (simp_all add: unlink_missing)

section \<open>The upload loop and the request body\<close>

lemma log_progress_simps:
  "fs (log_progress st w) = fs w"
  "requests (log_progress st w) = requests w"
  "written (log_progress st w) = written w"
  "frames (log_progress st w) = frames w"
  "api_calls (log_progress st w) = api_calls w"
  "unlinked (log_progress st w) = unlinked w"
  by (cases st; simp add: log_progress_def logging_simps)+

lemma execute_upload_world:
  assumes "execute_upload e n w = Some y"
  shows "fs (snd y) = fs w \<and> requests (snd y) = requests w \<and> written (snd y) = written w
       \<and> frames (snd y) = frames w \<and> api_calls (snd y) = api_calls w \<and> unlinked (snd y) = unlinked w"
  using assms
proof (induction e n w y rule: execute_upload.raw_induct [rotated 1, consumes 1])
  case (1 f e n w y)
  show ?case
  proof (cases "next_chunk e n")
    case (Inl ex)
    with 1(2) show ?thesis by auto
  next
    case (Inr sr)
    show ?thesis
    proof (cases "snd sr")
      case None
      with Inr 1(2) have "f e (Suc n) (log_progress (fst sr) w) = Some y" by simp
      from 1(1) [OF this] show ?thesis by (simp add: log_progress_simps)
    next
      case (Some resp)
      show ?thesis
      proof (cases "truthy resp")
        case True
        with Inr Some 1(2) show ?thesis by (auto simp: log_progress_simps)
      next
        case False
        with Inr Some 1(2) have "f e (Suc n) (log_progress (fst sr) w) = Some y" by simp
        from 1(1) [OF this] show ?thesis by (simp add: log_progress_simps)
      qed
    qed
  qed
qed

lemma execute_upload_response:
  assumes "execute_upload e n w = Some y"
  shows "\<forall>resp. fst y = Inr resp \<longrightarrow> truthy resp \<and> (\<exists>k st. n \<le> k \<and> next_chunk e k = Inr (st, Some resp))"
  using assms
proof (induction e n w y rule: execute_upload.raw_induct [rotated 1, consumes 1])
  case (1 f e n w y)
  show ?case
  proof (cases "next_chunk e n")
    case (Inl ex)
    with 1(2) show ?thesis by auto
  next
    case (Inr sr)
    show ?thesis
    proof (cases "snd sr")
      case None
      with Inr 1(2) have "f e (Suc n) (log_progress (fst sr) w) = Some y" by simp
      from 1(1) [OF this] show ?thesis by (meson Suc_leD)
    next
      case (Some resp)
      show ?thesis
      proof (cases "truthy resp")
        case True
        with Inr Some 1(2) have y: "fst y = Inr resp" by auto
        from Inr Some have "next_chunk e n = Inr (fst sr, Some resp)" by (cases sr) simp
        with y True show ?thesis by auto
      next
        case False
        with Inr Some 1(2) have "f e (Suc n) (log_progress (fst sr) w) = Some y" by simp
        from 1(1) [OF this] show ?thesis by (meson Suc_leD)
      qed
    qed
  qed
qed

lemma attach_thumbnail_calls:
  "\<exists>cs. api_calls (snd (attach_thumbnail e w resp tp)) = api_calls w @ cs
      \<and> (\<forall>parts b p. VideosInsert parts b p \<notin> set cs)"
  unfolding attach_thumbnail_def Let_def
  by (cases tp; simp split: sum.splits option.splits)

lemma build_body_props:
  assumes "build_body cfg md = Inr b"
  shows "privacyStatus (b_status b) = ''public'' \<and> \<not> selfDeclaredMadeForKids (b_status b)
       \<and> categoryId (b_snippet b) = ''24''
       \<and> s_description (b_snippet b) =
           (case description md of None \<Rightarrow> [] | Some d \<Rightarrow> d) @ [CHR 0x0A, CHR 0x0A]
           @ join '' '' (default_hashtags cfg) @ [CHR 0x0A]
           @ ''#'' @ filter (\<lambda>c. c \<noteq> CHR '' '') (case niche md of None \<Rightarrow> ''content'' | Some n \<Rightarrow> n)"
  using assms by (auto simp: build_body_def build_description_def split: option.splits)

lemma Config_init_hashtags:
  "Config_init getenv = Inr cfg \<Longrightarrow> join '' '' (default_hashtags cfg) = ''#Shorts #Viral #Trending''"
  by (auto simp: Config_init_def Let_def split: option.splits)

section \<open>The stages of a run\<close>

text \<open>
  No stage removes a file, and a stage that returns a path leaves a file there; the upload
  does not touch the files; so the cleanup at the end of a run finds three files.
\<close>

lemma no_loss_refl: "no_loss w w"
  by (simp add: no_loss_def)

lemma no_loss_trans: "no_loss w w1 \<Longrightarrow> no_loss w1 w2 \<Longrightarrow> no_loss w w2"
  unfolding no_loss_def by (intro conjI; metis)

lemma no_loss_same_files:
  "fs w' = fs w \<Longrightarrow> written w' = written w \<Longrightarrow> unlinked w' = unlinked w \<Longrightarrow> no_loss w w'"
  by (simp add: no_loss_def)

lemma no_loss_logged: "no_loss (snd rw) (snd (logged pre rw))"
  by (rule no_loss_same_files) (simp_all add: logged_simps)

lemma no_loss_write:
  "fs w' = (fs w)(p \<mapsto> File c) \<Longrightarrow> written w' = written w @ [p] \<Longrightarrow> unlinked w' = unlinked w
   \<Longrightarrow> no_loss w w'"
  by (auto simp: no_loss_def)

lemma no_loss_not_dir: "no_loss w w' \<Longrightarrow> fs w p \<noteq> Some Dir \<Longrightarrow> fs w' p \<noteq> Some Dir"
  by (auto simp: no_loss_def)

lemma download_attempts_no_loss:
  "no_loss w (snd (download_attempts e url p as w))
   \<and> (\<forall>p'. fst (download_attempts e url p as w) = Inr p' \<longrightarrow>
         fs (snd (download_attempts e url p as w)) p' \<noteq> Some Dir)"
proof (induction as arbitrary: w)
  case Nil
  show ?case by (simp add: no_loss_refl)
next
  case (Cons a as)
  let ?w1 = "w\<lparr>requests := requests w @ [DownloadGet url 10]\<rparr>"
  have w1: "no_loss w ?w1" by (rule no_loss_same_files) simp_all
  have rec: "no_loss w (snd (download_attempts e url p as (warn_attempt a ex ?w1)))
     \<and> (\<forall>p'. fst (download_attempts e url p as (warn_attempt a ex ?w1)) = Inr p' \<longrightarrow>
         fs (snd (download_attempts e url p as (warn_attempt a ex ?w1))) p' \<noteq> Some Dir)" for ex
  proof -
    have "no_loss w (warn_attempt a ex ?w1)"
      by (rule no_loss_same_files) (simp_all add: warn_attempt_simps)
    with Cons.IH [of "warn_attempt a ex ?w1"] show ?thesis
      by (blast intro: no_loss_trans)
  qed
  have wr: "no_loss w w2 \<and> fs w2 p \<noteq> Some Dir" if "write_file ?w1 p c = Inr w2" for c w2
  proof -
    from that have "fs w2 = (fs ?w1)(p \<mapsto> File c)" "written w2 = written ?w1 @ [p]"
      "unlinked w2 = unlinked ?w1"
      by (auto simp: write_file_def split: option.splits node.splits)
    then show ?thesis using no_loss_write [of w2 ?w1 p c] w1
      by (auto intro: no_loss_trans)
  qed
  show ?case
    using rec w1 wr
    by (auto simp: Let_def split: sum.splits option.splits)
qed

lemma get_pexels_video_no_loss:
  "no_loss w (snd (get_pexels_video e cfg w r q d))
   \<and> (\<forall>p. fst (get_pexels_video e cfg w r q d) = Inr p \<longrightarrow>
         fs (snd (get_pexels_video e cfg w r q d)) p \<noteq> Some Dir)"
proof -
  let ?w1 = "w\<lparr>requests := requests w @ [search_request cfg q d]\<rparr>"
  have w1: "no_loss w ?w1" by (rule no_loss_same_files) simp_all
  have sel: "no_loss w (snd (fetch_selected e ?w1 v))
     \<and> (\<forall>p. fst (fetch_selected e ?w1 v) = Inr p \<longrightarrow> fs (snd (fetch_selected e ?w1 v)) p \<noteq> Some Dir)" for v
    unfolding fetch_selected_def download_file_def
    using download_attempts_no_loss [of ?w1 e] w1
    by (auto split: sum.splits intro: no_loss_trans)
  have body: "no_loss w (snd rw) \<and> (\<forall>p. fst rw = Inr p \<longrightarrow> fs (snd rw) p \<noteq> Some Dir)
    \<Longrightarrow> no_loss w (snd (logged pre rw)) \<and> (\<forall>p. fst (logged pre rw) = Inr p \<longrightarrow> fs (snd (logged pre rw)) p \<noteq> Some Dir)"
    for rw :: "(error + path) \<times> world" and pre
    using no_loss_logged [of rw pre] by (auto simp: logged_simps intro: no_loss_trans)
  show ?thesis
    unfolding get_pexels_video_def Let_def
    by (rule body) (use sel w1 in \<open>auto split: sum.splits option.splits\<close>)
qed

lemma logged_no_loss:
  fixes rw :: "(error + path) \<times> world"
  assumes "no_loss w (snd rw) \<and> (\<forall>p. fst rw = Inr p \<longrightarrow> fs (snd rw) p \<noteq> Some Dir)"
  shows "no_loss w (snd (logged pre rw))
       \<and> (\<forall>p. fst (logged pre rw) = Inr p \<longrightarrow> fs (snd (logged pre rw)) p \<noteq> Some Dir)"
  using assms no_loss_logged [of rw pre] by (auto simp: logged_simps intro: no_loss_trans)

lemma process_video_no_loss:
  "no_loss w (snd (process_video e w r ip op text))
   \<and> (\<forall>p. fst (process_video e w r ip op text) = Inr p \<longrightarrow>
         fs (snd (process_video e w r ip op text)) p \<noteq> Some Dir)"
proof -
  have wr: "no_loss w (w\<lparr>fs := (fs w)(op \<mapsto> File c), written := written w @ [op]\<rparr>)" for c
    by (rule no_loss_write [of _ _ op c]) simp_all
  show ?thesis
    unfolding process_video_def Let_def
    by (rule logged_no_loss) (use wr in \<open>auto simp: no_loss_refl split: sum.splits option.splits\<close>)
qed

lemma generate_no_loss:
  "no_loss w (snd (generate e w u vp op text))
   \<and> (\<forall>p. fst (generate e w u vp op text) = Inr p \<longrightarrow>
         fs (snd (generate e w u vp op text)) p \<noteq> Some Dir)"
proof -
  have fr: "no_loss w (w\<lparr>frames := frames w @ [t]\<rparr>)" for t
    by (rule no_loss_same_files) simp_all
  have wr: "no_loss w (w\<lparr>frames := frames w @ [t], fs := (fs w)(op \<mapsto> File c),
                         written := written w @ [op]\<rparr>)" for c t
    by (rule no_loss_write [of _ _ op c]) simp_all
  show ?thesis
    unfolding generate_def Let_def
    by (rule logged_no_loss) (use fr wr in \<open>auto simp: no_loss_refl split: sum.splits option.splits\<close>)
qed

lemma attach_thumbnail_files:
  "fs (snd (attach_thumbnail e w resp tp)) = fs w
   \<and> written (snd (attach_thumbnail e w resp tp)) = written w
   \<and> unlinked (snd (attach_thumbnail e w resp tp)) = unlinked w"
  unfolding attach_thumbnail_def Let_def
  by (cases tp; simp split: sum.splits option.splits)

lemma attach_thumbnail_id:
  "fst (attach_thumbnail e w resp tp) = Inr vid \<Longrightarrow> getitem resp ''id'' = Inr vid"
  unfolding attach_thumbnail_def Let_def
  by (cases tp; simp split: sum.splits option.splits)

lemma upload_video_cases:
  assumes "upload_video e cfg w vp md tp = Some (r, w')"
  shows "fs w' = fs w \<and> written w' = written w \<and> unlinked w' = unlinked w
       \<and> (\<forall>vid. r = Inr vid \<longrightarrow>
            (\<exists>k st resp. next_chunk e k = Inr (st, Some resp) \<and> truthy resp
                        \<and> getitem resp ''id'' = Inr vid))"
proof -
  from assms obtain rw where
    body: "upload_steps e cfg w vp md tp = Some rw"
    and res: "(r, w') = logged ''Upload failed: '' rw"
    by (auto simp: upload_video_def)
  note body = body [unfolded upload_steps_def]
  have "fs (snd rw) = fs w \<and> written (snd rw) = written w \<and> unlinked (snd rw) = unlinked w
       \<and> (\<forall>vid. fst rw = Inr vid \<longrightarrow>
            (\<exists>k st resp. next_chunk e k = Inr (st, Some resp) \<and> truthy resp
                        \<and> getitem resp ''id'' = Inr vid))"
  proof (cases "build_body cfg md")
    case (Inl ex)
    with body show ?thesis by auto
  next
    case (Inr b)
    show ?thesis
    proof (cases "media_file_upload e vp")
      case (Some ex)
      with Inr body show ?thesis by auto
    next
      case None
      let ?w1 = "w\<lparr>api_calls := api_calls w @ [VideosInsert ''snippet,status'' b vp]\<rparr>"
      from Inr None body obtain y where y: "execute_upload e 0 ?w1 = Some y"
        by (auto split: option.splits)
      from execute_upload_world [OF y]
      have wy: "fs (snd y) = fs w" "written (snd y) = written w" "unlinked (snd y) = unlinked w"
        by simp_all
      show ?thesis
      proof (cases "fst y")
        case (Inl ex)
        with Inr None y body have "rw = (Inl ex, snd y)" by simp
        with wy show ?thesis by simp
      next
        case (Inr resp)
        with \<open>build_body cfg md = Inr b\<close> None y body
        have rw: "rw = attach_thumbnail e (snd y) resp tp" by simp
        from execute_upload_response [OF y] Inr obtain k st where
          k: "truthy resp" "next_chunk e k = Inr (st, Some resp)" by blast
        from rw wy attach_thumbnail_files [of e "snd y" resp tp]
        have files: "fs (snd rw) = fs w \<and> written (snd rw) = written w \<and> unlinked (snd rw) = unlinked w"
          by simp
        from rw attach_thumbnail_id [of e "snd y" resp tp] k
        have "\<forall>vid. fst rw = Inr vid \<longrightarrow>
            (\<exists>k st resp. next_chunk e k = Inr (st, Some resp) \<and> truthy resp
                        \<and> getitem resp ''id'' = Inr vid)" by blast
        with files show ?thesis by blast
      qed
    qed
  qed
  moreover from res have "r = fst (logged ''Upload failed: '' rw)" "w' = snd (logged ''Upload failed: '' rw)"
    by (metis fst_conv, metis snd_conv)
  ultimately show ?thesis by (simp add: logged_simps)
qed

lemma finish_succeeds:
  assumes "\<forall>p\<in>set ps. fs w p \<noteq> Some Dir"
  shows "fst (finish e w vid ps) = Inr vid"
proof -
  let ?w = "logging INFO (''Successfully uploaded video ID: '' @ py_str (py_repr e) vid) w"
  from assms have "\<forall>p\<in>set ps. fs ?w p \<noteq> Some Dir" by (simp add: logging_simps)
  from cleanup_succeeds [OF this] have "fst (cleanup ?w ps) = Inr ()" by simp
  then obtain w' where "cleanup ?w ps = (Inr (), w')" by (cases "cleanup ?w ps") auto
  then show ?thesis by (simp add: finish_def)
qed




lemma run_pipeline_outcome:
  assumes "run_pipeline e cfg w g n q = Some (r, w')"
  shows "(\<forall>ex. r = Inl ex \<longrightarrow> no_loss w w')
       \<and> (\<forall>vid. r = Inr vid \<longrightarrow>
            (\<exists>k st resp. next_chunk e k = Inr (st, Some resp) \<and> truthy resp
                        \<and> getitem resp ''id'' = Inr vid))"
proof -
  let ?P = "\<lambda>rb. (\<forall>ex. fst rb = Inl ex \<longrightarrow> no_loss w (snd rb))
       \<and> (\<forall>vid. fst rb = Inr vid \<longrightarrow>
            (\<exists>k st resp. next_chunk e k = Inr (st, Some resp) \<and> truthy resp
                        \<and> getitem resp ''id'' = Inr vid))"
  obtain r1 w1 where s1: "get_pexels_video e cfg w (video_draw g) q 15 = (r1, w1)" by fastforce
  from get_pexels_video_no_loss [of w e cfg "video_draw g" q 15] s1
  have n1: "no_loss w w1" and f1: "\<And>p. r1 = Inr p \<Longrightarrow> fs w1 p \<noteq> Some Dir" by auto
  from assms obtain rb where
    body: "run_stages e cfg w g n q = Some rb"
    and res: "(r, w') = logged ''Pipeline failed: '' rb"
    unfolding run_pipeline_def by auto
  note body = body [unfolded run_stages_def s1]
  have "?P rb"
  proof (cases r1)
    case (Inl ex1)
    with body have "rb = (Inl ex1, w1)" by simp
    with n1 show ?thesis by simp
  next
    case vp: (Inr video_path)
    obtain r2 w2 where s2: "process_video e w1 (music_draw g) video_path (temp_dir e @ ''/processed.mp4'')
               (''5 SECONDS HACKS! '' @ literal_tail) = (r2, w2)" by fastforce
    from process_video_no_loss [of w1 e "music_draw g" video_path "temp_dir e @ ''/processed.mp4''"
           "''5 SECONDS HACKS! '' @ literal_tail"] s2
    have n2: "no_loss w1 w2" and f2: "\<And>p. r2 = Inr p \<Longrightarrow> fs w2 p \<noteq> Some Dir" by auto
    show ?thesis
    proof (cases r2)
      case (Inl ex2)
      with vp s2 body have "rb = (Inl ex2, w2)" by simp
      with n1 n2 show ?thesis by (auto intro: no_loss_trans)
    next
      case ep: (Inr edited_path)
      obtain r3 w3 where s3: "generate e w2 (frame_draw g) edited_path (temp_dir e @ ''/thumbnail.jpg'')
               ''WATCH NOW!'' = (r3, w3)" by fastforce
      from generate_no_loss [of w2 e "frame_draw g" edited_path "temp_dir e @ ''/thumbnail.jpg''"
             "''WATCH NOW!''"] s3
      have n3: "no_loss w2 w3" and f3: "\<And>p. r3 = Inr p \<Longrightarrow> fs w3 p \<noteq> Some Dir" by auto
      have n03: "no_loss w w3" using n1 n2 n3 by (blast intro: no_loss_trans)
      show ?thesis
      proof (cases r3)
        case (Inl ex3)
        with vp ep s2 s3 body have "rb = (Inl ex3, w3)" by simp
        with n03 show ?thesis by simp
      next
        case tp: (Inr thumbnail_path)
        from vp ep tp s2 s3 body obtain r4 w4 where
          s4: "upload_video e cfg w3 edited_path (make_metadata n) (Some thumbnail_path) = Some (r4, w4)"
          by (cases "upload_video e cfg w3 edited_path (make_metadata n) (Some thumbnail_path)") auto
        from upload_video_cases [OF s4]
        have same: "fs w4 = fs w3" "written w4 = written w3" "unlinked w4 = unlinked w3"
          and chunk: "\<And>vid. r4 = Inr vid \<Longrightarrow>
            \<exists>k st resp. next_chunk e k = Inr (st, Some resp) \<and> truthy resp
                        \<and> getitem resp ''id'' = Inr vid" by auto
        from same have n4: "no_loss w3 w4" by (rule no_loss_same_files)
        show ?thesis
        proof (cases r4)
          case (Inl ex4)
          with vp ep tp s2 s3 s4 body have "rb = (Inl ex4, w4)" by simp
          with n03 n4 show ?thesis by (auto intro: no_loss_trans)
        next
          case vid: (Inr video_id)
          with vp ep tp s2 s3 s4 body
          have rb: "rb = finish e w4 video_id [video_path, edited_path, thumbnail_path]" by simp
          have "fs w4 video_path \<noteq> Some Dir"
            using f1 [OF vp] n2 n3 same(1) by (metis no_loss_not_dir)
          moreover have "fs w4 edited_path \<noteq> Some Dir"
            using f2 [OF ep] n3 same(1) by (metis no_loss_not_dir)
          moreover have "fs w4 thumbnail_path \<noteq> Some Dir"
            using f3 [OF tp] same(1) by simp
          ultimately have "\<forall>p\<in>set [video_path, edited_path, thumbnail_path]. fs w4 p \<noteq> Some Dir"
            by simp
          from finish_succeeds [OF this, of e video_id] rb
          have "fst rb = Inr video_id" by simp
          with chunk [OF vid] show ?thesis by auto
        qed
      qed
    qed
  qed
  moreover from res have "r = fst (logged ''Pipeline failed: '' rb)"
    "w' = snd (logged ''Pipeline failed: '' rb)" by (metis fst_conv, metis snd_conv)
  moreover have "no_loss (snd rb) (snd (logged ''Pipeline failed: '' rb))" by (rule no_loss_logged)
  ultimately show ?thesis
    by (auto simp: logged_simps intro: no_loss_trans)
qed

section \<open>The example runs\<close>

text \<open>The example environments, evaluated stage by stage.\<close>

lemma upt_3: "[0..<3] = [0, 1, 2]"
  by (simp add: numeral_3_eq_3 numeral_2_eq_2)

lemma download_stage_env0:
  assumes "net e = net0" and "content_dir e = ''content''"
  shows "get_pexels_video e cfg0 world0 r ''exercise motivation'' 15 = (Inr ''content/pexels_7.mp4'', world1)"
  by (simp add: get_pexels_video_def search_request_def fetch_selected_def download_file_def upt_3
        assms net0_def world0_def world1_def cfg0_def raise_for_status_def write_file_def
        warn_attempt_def logging_def logged_def choice_def Let_def show_int_def)

lemma edit_stage_env0:
  assumes "open_clip e = open_clip env0" and "text_clip e = text_clip env0"
    and "music_listing e = None" and "write_videofile e = write_videofile env0"
  shows "process_video e world1 r ''content/pexels_7.mp4'' ''temp/processed.mp4'' text
           = (Inr ''temp/processed.mp4'', world2)"
  by (simp add: process_video_def add_music_def assms env0_def world2_def logged_def Let_def)

lemma thumbnail_stage_env0:
  assumes "open_clip e = open_clip env0" and "fl e = round52" and "get_frame e = get_frame env0"
    and "fromarray e = fromarray env0" and "image_draw e = image_draw env0"
    and "textbbox e = textbbox env0" and "text_error e = text_error env0"
    and "save_image e = save_image env0"
  shows "generate e world2 (1 / 4) ''temp/processed.mp4'' ''temp/thumbnail.jpg'' text
           = (Inr ''temp/thumbnail.jpg'', world3)"
  by (simp add: generate_def uniform_def draw_text_def assms env0_def round52_numeral
        world3_def world2_def world1_def world0_def logged_def Let_def)

lemma upload_env0:
  "\<exists>w'. upload_video env0 cfg0 w ''temp/processed.mp4'' (make_metadata n) (Some ''temp/thumbnail.jpg'')
      = Some (Inr (JStr ''abc123''), w')"
  by (simp add: upload_video_def upload_steps_def build_body_def make_metadata_def env0_def execute_upload.simps
        attach_thumbnail_def logged_def Let_def)

lemma run_stages_fixture:
  assumes "e = env0\<lparr>next_chunk := nc\<rparr>"
  shows "run_stages e cfg0 world0 rng0 n ''exercise motivation''
       = (case upload_video e cfg0 world3 ''temp/processed.mp4'' (make_metadata n)
                 (Some ''temp/thumbnail.jpg'') of
            None \<Rightarrow> None
          | Some (Inl ex, w4) \<Rightarrow> Some (Inl ex, w4)
          | Some (Inr video_id, w4) \<Rightarrow>
              Some (finish e w4 video_id
                      [''content/pexels_7.mp4'', ''temp/processed.mp4'', ''temp/thumbnail.jpg'']))"
proof -
  have d: "get_pexels_video e cfg0 world0 (video_draw rng0) ''exercise motivation'' 15
             = (Inr ''content/pexels_7.mp4'', world1)"
    by (rule download_stage_env0) (simp_all add: assms env0_def)
  have t: "temp_dir e = ''temp''" by (simp add: assms env0_def)
  have p: "process_video e world1 (music_draw rng0) ''content/pexels_7.mp4'' (temp_dir e @ ''/processed.mp4'') s
             = (Inr ''temp/processed.mp4'', world2)" for s
    unfolding t using edit_stage_env0 [of e] by (simp add: assms env0_def)
  have g: "generate e world2 (frame_draw rng0) ''temp/processed.mp4'' (temp_dir e @ ''/thumbnail.jpg'') s
             = (Inr ''temp/thumbnail.jpg'', world3)" for s
    unfolding t using thumbnail_stage_env0 [of e] by (simp add: assms rng0_def env0_def)
  show ?thesis
    unfolding run_stages_def d by (simp add: p g)
qed



lemma upload_env_abort:
  "\<exists>w'. upload_video env_abort cfg0 w ''temp/processed.mp4'' (make_metadata n) (Some ''temp/thumbnail.jpg'')
      = Some (Inl (LibraryError ''HttpError 503''), w')"
  by (simp add: upload_video_def upload_steps_def build_body_def make_metadata_def env_abort_def env0_def
        execute_upload.simps attach_thumbnail_def logged_def Let_def)



lemma run_env_abort_written:
  "\<exists>w'. run_pipeline env_abort cfg0 world0 rng0 ''fitness'' ''exercise motivation''
           = Some (Inl (LibraryError ''HttpError 503''), w')
       \<and> written w' = [''content/pexels_7.mp4'', ''temp/processed.mp4'', ''temp/thumbnail.jpg'']"
proof -
  from upload_env_abort obtain w4 where
    u: "upload_video env_abort cfg0 world3 ''temp/processed.mp4'' (make_metadata ''fitness'')
          (Some ''temp/thumbnail.jpg'') = Some (Inl (LibraryError ''HttpError 503''), w4)" by blast
  from upload_video_cases [OF u]
  have "written w4 = [''content/pexels_7.mp4'', ''temp/processed.mp4'', ''temp/thumbnail.jpg'']"
    by (simp add: world3_def world2_def world1_def world0_def)
  then show ?thesis
    unfolding run_pipeline_def run_stages_fixture [OF env_abort_def] u
    by (simp add: logged_def logging_simps)
qed

section \<open>The timestamp of the thumbnail frame\<close>

text \<open>
  Claim C1, as stated, fails in both halves. With a clip of 10 seconds and the draw 0 the
  sampled timestamp is 1, which is not strictly above 1; with a clip of 2 seconds
  \<open>generate\<close> samples the timestamp 1 and returns the thumbnail path instead of raising.
\<close>

theorem thumbnail_timestamp_counterexample:
  "map_sum id duration (open_clip env0 ''temp/processed.mp4'') = Inr 10
   \<and> frames (snd (generate env0 world0 0 ''temp/processed.mp4'' ''temp/thumbnail.jpg'' ''WATCH NOW!'')) = [1]
   \<and> \<not> 1 < last (frames (snd (generate env0 world0 0 ''temp/processed.mp4'' ''temp/thumbnail.jpg''
                                     ''WATCH NOW!'')))
   \<and> map_sum id duration (open_clip env_short ''temp/processed.mp4'') = Inr 2
   \<and> fst (generate env_short world0 (1 / 4) ''temp/processed.mp4'' ''temp/thumbnail.jpg'' ''WATCH NOW!'')
       = Inr ''temp/thumbnail.jpg''
   \<and> frames (snd (generate env_short world0 (1 / 4) ''temp/processed.mp4'' ''temp/thumbnail.jpg'' ''WATCH NOW!'')) = [1]"
  by (simp add: generate_def uniform_def draw_text_def env_short_def env0_def world0_def logged_def
        Let_def round52_numeral round52_0 round52_1)

text \<open>
  Claim C1, amended. Whenever the clip opens, whatever its duration, \<open>generate\<close> samples
  one timestamp, \<open>1 + ((duration - 1) - 1) * random()\<close> computed in doubles, and passes
  it to \<open>get_frame\<close>: there is no guard on the duration. For a duration above 2 seconds
  the timestamp is at least 1, and it is at most \<open>duration - 1\<close> when \<open>duration - 1\<close>
  and \<open>duration - 2\<close> are doubles. For a duration of at most 2 seconds the timestamp is
  at most 1, and at least \<open>duration - 1\<close> under the same condition.
\<close>

theorem thumbnail_timestamp:
  assumes "open_clip e video_path = Inr clip" and "rounding (fl e)" and "0 \<le> u" and "u < 1"
  shows "(let t = uniform (fl e) 1 (fl e (duration clip - 1)) u;
              exact = (fl e (duration clip - 1) = duration clip - 1
                       \<and> fl e (duration clip - 2) = duration clip - 2) in
          frames (snd (generate e w u video_path output_path caption_text)) = frames w @ [t]
          \<and> (2 < duration clip \<longrightarrow> 1 \<le> t \<and> (exact \<longrightarrow> t \<le> duration clip - 1))
          \<and> (duration clip \<le> 2 \<longrightarrow> t \<le> 1 \<and> (exact \<longrightarrow> duration clip - 1 \<le> t)))"
proof -
  define f where "f = fl e"
  define dur where "dur = duration clip"
  from assms(2) have mono: "\<And>x y. x \<le> y \<Longrightarrow> f x \<le> f y"
    and idem: "\<And>x. f (f x) = f x" and f0: "f 0 = 0" and f1: "f 1 = 1"
    by (auto simp: rounding_def f_def)
  define b where "b = f (dur - 1)"
  define c where "c = f (b - 1)"
  define p where "p = f (c * u)"
  define t where "t = f (1 + p)"
  have t_eq: "uniform (fl e) 1 (fl e (duration clip - 1)) u = t"
    by (simp add: uniform_def t_def p_def c_def b_def f_def dur_def)
  have fc: "f c = c" by (simp add: c_def idem)
  have sampled: "frames (snd (generate e w u video_path output_path caption_text)) = frames w @ [t]"
    unfolding generate_def logged_simps using assms(1)
    by (simp add: Let_def t_eq split: sum.splits option.splits)
  have long_lower: "1 \<le> t" if "2 < dur"
  proof -
    from that have "f 1 \<le> b" unfolding b_def by (intro mono) simp
    then have "f 0 \<le> c" unfolding c_def by (intro mono) (simp add: f1)
    with assms(3) have "0 \<le> c * u" by (simp add: f0)
    then have "f 0 \<le> p" unfolding p_def by (rule mono)
    then have "f 1 \<le> t" unfolding t_def by (intro mono) (simp add: f0)
    then show ?thesis by (simp add: f1)
  qed
  have long_upper: "t \<le> dur - 1" if "2 < dur" "f (dur - 1) = dur - 1" "f (dur - 2) = dur - 2"
  proof -
    from that have c: "c = dur - 2" by (simp add: c_def b_def)
    with that(1) assms(4) have "c * u \<le> c" by (simp add: mult_left_le)
    then have "p \<le> f c" unfolding p_def by (rule mono)
    with fc have "1 + p \<le> 1 + c" by simp
    then have "t \<le> f (1 + c)" unfolding t_def by (rule mono)
    with c that(2) show ?thesis by simp
  qed
  have short_upper: "t \<le> 1" if "dur \<le> 2"
  proof -
    from that have "b \<le> f 1" unfolding b_def by (intro mono) simp
    then have "c \<le> f 0" unfolding c_def by (intro mono) (simp add: f1)
    with assms(3) have "c * u \<le> 0" by (simp add: f0 mult_nonpos_nonneg)
    then have "p \<le> f 0" unfolding p_def by (rule mono)
    then have "t \<le> f 1" unfolding t_def by (intro mono) (simp add: f0)
    then show ?thesis by (simp add: f1)
  qed
  have short_lower: "dur - 1 \<le> t" if "dur \<le> 2" "f (dur - 1) = dur - 1" "f (dur - 2) = dur - 2"
  proof -
    from that have c: "c = dur - 2" by (simp add: c_def b_def)
    with that(1) have "c \<le> 0" by simp
    with assms(4) have "c * 1 \<le> c * u" by (intro mult_left_mono_neg) simp_all
    then have "f c \<le> p" unfolding p_def by (intro mono) simp
    with fc have "1 + c \<le> 1 + p" by simp
    then have "f (1 + c) \<le> t" unfolding t_def by (rule mono)
    with c that(2) show ?thesis by simp
  qed
  show ?thesis
    unfolding Let_def t_eq
    using sampled long_lower long_upper short_upper short_lower
    by (auto simp: f_def dur_def)
qed

text \<open>
  Three instances: a clip of 10 seconds sampled at 3, a clip of 2 seconds sampled at 1, and a
  clip of 3 seconds that the largest draw samples at 2, the upper end \<open>duration - 1\<close>.
\<close>

theorem thumbnail_timestamp_witness:
  "rounding (fl env0)
   \<and> frames (snd (generate env0 world0 (1 / 4) ''temp/processed.mp4'' ''temp/thumbnail.jpg'' ''WATCH NOW!'')) = [3]
   \<and> (1::real) \<le> 3 \<and> (3::real) \<le> 10 - 1
   \<and> frames (snd (generate env_short world0 (1 / 4) ''temp/processed.mp4'' ''temp/thumbnail.jpg'' ''WATCH NOW!'')) = [1]
   \<and> (2::real) - 1 \<le> 1
   \<and> frames (snd (generate env_three_seconds world0 draw_max ''temp/processed.mp4'' ''temp/thumbnail.jpg''
                     ''WATCH NOW!'')) = [2]
   \<and> (2::real) \<le> 3 - 1"
proof -
  let ?c10 = "\<lparr>duration = 10, width = 1080, height = 1920, caption = None, audio = None\<rparr>"
  let ?c2 = "\<lparr>duration = 2, width = 1080, height = 1920, caption = None, audio = None\<rparr>"
  let ?c3 = "\<lparr>duration = 3, width = 1080, height = 1920, caption = None, audio = None\<rparr>"
  have o: "open_clip env0 ''temp/processed.mp4'' = Inr ?c10"
    "open_clip env_short ''temp/processed.mp4'' = Inr ?c2"
    "open_clip env_three_seconds ''temp/processed.mp4'' = Inr ?c3"
    by (simp_all add: env_short_def env_three_seconds_def env0_def)
  have f: "fl env0 = round52" "fl env_short = round52" "fl env_three_seconds = round52"
    by (simp_all add: env_short_def env_three_seconds_def env0_def)
  have r: "rounding (fl env0)" "rounding (fl env_short)" "rounding (fl env_three_seconds)"
    unfolding f by (rule rounding_round52)+
  have u: "(0::real) \<le> 1 / 4" "(1::real) / 4 < 1" by simp_all
  have w: "frames world0 = []" by (simp add: world0_def)
  have t10: "uniform round52 1 9 (1 / 4) = 3"
    by (simp add: uniform_def round52_numeral)
  have t2: "uniform round52 1 1 (1 / 4) = 1"
    by (simp add: uniform_def round52_0 round52_1)
  have t3: "uniform round52 1 2 draw_max = 2"
    by (simp add: uniform_def round52_numeral round52_1 round52_draw_max)
  from thumbnail_timestamp [OF o(1) r(1) u, of world0 "''temp/thumbnail.jpg''" "''WATCH NOW!''"]
       thumbnail_timestamp [OF o(2) r(2) u, of world0 "''temp/thumbnail.jpg''" "''WATCH NOW!''"]
       thumbnail_timestamp [OF o(3) r(3) draw_max_range, of world0 "''temp/thumbnail.jpg''"
                              "''WATCH NOW!''"]
       r(1)
  show ?thesis by (simp add: Let_def w f t10 t2 t3 round52_numeral round52_0 round52_1)
qed

section \<open>Download retry\<close>

text \<open>
  Claim C2. \<open>_download_file\<close> issues at most three GET requests for the URL. When the
  attempts before the \<open>k\<close>-th fail in the transport and the \<open>k\<close>-th succeeds, it
  returns the written path after \<open>k + 1\<close> requests and \<open>k\<close> warnings (two warnings
  when the transport fails twice and then succeeds). When all three attempts fail in the
  transport, it raises the \<open>ConnectionError\<close> that names the URL, after exactly three
  requests.
\<close>

theorem download_file_retry:
  "(let p = content_dir e @ ''/'' @ filename;
        rw = download_file e w url filename;
        n = length (requests w) in
    (\<exists>m\<le>3. requests (snd rw) = requests w @ replicate m (DownloadGet url 10))
    \<and> (k < 3 \<and> (\<forall>j<k. fails_at e url (n + j)) \<and> succeeds_at e url (n + k) c \<and> fs w p \<noteq> Some Dir
        \<longrightarrow> fst rw = Inr p
          \<and> requests (snd rw) = requests w @ replicate (Suc k) (DownloadGet url 10)
          \<and> length (warnings (snd rw)) = length (warnings w) + k
          \<and> fs (snd rw) = (fs w)(p \<mapsto> File c))
    \<and> ((\<forall>j<3. fails_at e url (n + j))
        \<longrightarrow> fst rw = Inl (ConnectionError (''Failed to download '' @ url @ '' after 3 attempts''))
          \<and> requests (snd rw) = requests w @ replicate 3 (DownloadGet url 10)
          \<and> length (warnings (snd rw)) = length (warnings w) + 3
          \<and> fs (snd rw) = fs w))"
proof -
  have len: "length [0..<3] = 3" by simp
  have a: "\<exists>m\<le>3. requests (snd (download_file e w url filename)) = requests w @ replicate m (DownloadGet url 10)"
    unfolding download_file_def
    using download_attempts_bound [of "[0..<3]" e url "content_dir e @ ''/'' @ filename" w]
    unfolding len .
  have b: "fst (download_file e w url filename) = Inr (content_dir e @ ''/'' @ filename)
          \<and> requests (snd (download_file e w url filename)) = requests w @ replicate (Suc k) (DownloadGet url 10)
          \<and> length (warnings (snd (download_file e w url filename))) = length (warnings w) + k
          \<and> fs (snd (download_file e w url filename)) = (fs w)(content_dir e @ ''/'' @ filename \<mapsto> File c)"
    if "k < 3" "\<forall>j<k. fails_at e url (length (requests w) + j)"
       "succeeds_at e url (length (requests w) + k) c" "fs w (content_dir e @ ''/'' @ filename) \<noteq> Some Dir"
    unfolding download_file_def
    using download_attempts_first_success [of k "[0..<3]" e url w c "content_dir e @ ''/'' @ filename"] that
    unfolding len by blast
  have c: "fst (download_file e w url filename) = Inl (ConnectionError (''Failed to download '' @ url @ '' after 3 attempts''))
          \<and> requests (snd (download_file e w url filename)) = requests w @ replicate 3 (DownloadGet url 10)
          \<and> length (warnings (snd (download_file e w url filename))) = length (warnings w) + 3
          \<and> fs (snd (download_file e w url filename)) = fs w"
    if "\<forall>j<3. fails_at e url (length (requests w) + j)"
    unfolding download_file_def
    using download_attempts_exhausted [of "[0..<3]" e url w "content_dir e @ ''/'' @ filename"] that
    unfolding len by blast
  show ?thesis unfolding Let_def using a b c by blast
qed

theorem download_file_retry_witness:
  "fst (download_file env0 (world0\<lparr>requests := [DownloadGet ''x'' 10]\<rparr>) ''u'' ''f.mp4'') = Inr ''content/f.mp4''
   \<and> length (warnings (snd (download_file env0 (world0\<lparr>requests := [DownloadGet ''x'' 10]\<rparr>) ''u'' ''f.mp4''))) = 2
   \<and> requests (snd (download_file env0 (world0\<lparr>requests := [DownloadGet ''x'' 10]\<rparr>) ''u'' ''f.mp4''))
       = [DownloadGet ''x'' 10, DownloadGet ''u'' 10, DownloadGet ''u'' 10, DownloadGet ''u'' 10]
   \<and> fst (download_file env_down world0 ''u'' ''f.mp4'') = Inl (ConnectionError ''Failed to download u after 3 attempts'')
   \<and> requests (snd (download_file env_down world0 ''u'' ''f.mp4'')) = [DownloadGet ''u'' 10, DownloadGet ''u'' 10, DownloadGet ''u'' 10]"
proof -
  let ?w = "world0\<lparr>requests := [DownloadGet ''x'' 10]\<rparr>"
  have f: "\<forall>j<2. fails_at env0 ''u'' (length (requests ?w) + j)"
    by (simp add: fails_at_def env0_def net0_def world0_def)
  have s: "succeeds_at env0 ''u'' (length (requests ?w) + 2) ''mp4''"
    by (simp add: succeeds_at_def env0_def net0_def world0_def raise_for_status_def)
  have d: "fs ?w (content_dir env0 @ ''/'' @ ''f.mp4'') \<noteq> Some Dir"
    by (simp add: world0_def)
  have g: "\<forall>j<3. fails_at env_down ''u'' (length (requests world0) + j)"
    by (simp add: fails_at_def env_down_def env0_def raise_for_status_def)
  have wz: "warnings ?w = []" "warnings world0 = []" by (simp_all add: warnings_def world0_def)
  have cd: "content_dir env0 = ''content''" "content_dir env_down = ''content''"
    by (simp_all add: env0_def env_down_def)
  have rq: "requests ?w = [DownloadGet ''x'' 10]" "requests world0 = []"
    by (simp_all add: world0_def)
  have k: "(2::nat) < 3" by simp
  have A: "fst (download_file env0 ?w ''u'' ''f.mp4'') = Inr (content_dir env0 @ ''/'' @ ''f.mp4'')
     \<and> requests (snd (download_file env0 ?w ''u'' ''f.mp4'')) = requests ?w @ replicate (Suc 2) (DownloadGet ''u'' 10)
     \<and> length (warnings (snd (download_file env0 ?w ''u'' ''f.mp4''))) = length (warnings ?w) + 2"
    using download_file_retry [of env0 "''f.mp4''" ?w "''u''" 2 "''mp4''"] f s d k
    unfolding Let_def by blast
  have B: "fst (download_file env_down world0 ''u'' ''f.mp4'')
       = Inl (ConnectionError (''Failed to download '' @ ''u'' @ '' after 3 attempts''))
     \<and> requests (snd (download_file env_down world0 ''u'' ''f.mp4'')) = requests world0 @ replicate 3 (DownloadGet ''u'' 10)"
    using download_file_retry [of env_down "''f.mp4''" world0 "''u''" 0 "''mp4''"] g
    unfolding Let_def by blast
  show ?thesis
    using A B by (simp add: wz cd rq numeral_3_eq_3 numeral_2_eq_2)
qed

section \<open>Background music\<close>

text \<open>
  Claim C3 at the music directory that exists and holds no track: \<open>process_video\<close>
  raises the \<open>IndexError\<close> of \<open>random.choice\<close> on the empty list, and no output
  file is written.
\<close>

theorem process_video_empty_music_dir:
  "music_listing env_silent = Some []
   \<and> fst (process_video env_silent world1 3 ''content/pexels_7.mp4'' ''temp/processed.mp4'' ''caption'')
       = Inl (IndexError ''Cannot choose from an empty sequence'')
   \<and> written (snd (process_video env_silent world1 3 ''content/pexels_7.mp4'' ''temp/processed.mp4'' ''caption''))
       = [''content/pexels_7.mp4'']
   \<and> fs (snd (process_video env_silent world1 3 ''content/pexels_7.mp4'' ''temp/processed.mp4'' ''caption''))
        ''temp/processed.mp4'' = None"
  by (simp add: process_video_def add_music_def choice_def env_silent_def env0_def world1_def world0_def
        logged_def logging_def Let_def)

section \<open>The metadata of the fitness niche\<close>

text \<open>
  Claim C4 at the niche \<open>fitness\<close>: the title that \<open>run_pipeline\<close> assembles ends
  in the nine bytes of the source literal, not in the four bytes of the rocket, and the tags
  are \<open>fitness\<close>, \<open>shorts\<close> and \<open>viral\<close>.
\<close>

theorem fitness_title_bytes:
  "title (make_metadata ''fitness'') = Some (''5 Second Fitness Hacks! '' @ literal_tail)
   \<and> title (make_metadata ''fitness'') \<noteq> Some (''5 Second Fitness Hacks! '' @ rocket)
   \<and> tags (make_metadata ''fitness'') = Some [''fitness'', ''shorts'', ''viral'']"
proof -
  have c: "capitalize ''fitness'' = ''Fitness''" by code_simp
  show ?thesis
    by (simp add: make_metadata_def c literal_tail_def rocket_def)
qed

section \<open>The result of a run\<close>




section \<open>Empty search results\<close>

text \<open>
  Claim C6. When the search answers with no candidate videos (the \<open>videos\<close> entry is
  the empty list, absent or otherwise falsy), \<open>get_pexels_video\<close> raises the
  \<open>ValueError\<close> "No videos found matching criteria"; the only request it has issued is
  the search, and no file is written.
\<close>

theorem no_results_no_download:
  assumes "net e (length (requests w)) (search_request cfg q d) = Inr resp"
    and "raise_for_status resp = None"
    and "body_json resp = Some j"
    and "dict_get j ''videos'' (JArr []) = Inr videos"
    and "\<not> truthy videos"
  shows "fst (get_pexels_video e cfg w r q d) = Inl (ValueError ''No videos found matching criteria'')
       \<and> requests (snd (get_pexels_video e cfg w r q d)) = requests w @ [search_request cfg q d]
       \<and> fs (snd (get_pexels_video e cfg w r q d)) = fs w
       \<and> written (snd (get_pexels_video e cfg w r q d)) = written w"
  using assms by (simp add: get_pexels_video_def logged_def Let_def logging_simps)

theorem no_results_no_download_witness:
  "fst (get_pexels_video env_empty cfg0 world0 0 ''exercise motivation'' 15)
     = Inl (ValueError ''No videos found matching criteria'')
   \<and> requests (snd (get_pexels_video env_empty cfg0 world0 0 ''exercise motivation'' 15))
     = [search_request cfg0 ''exercise motivation'' 15]
   \<and> written (snd (get_pexels_video env_empty cfg0 world0 0 ''exercise motivation'' 15)) = []"
proof -
  let ?resp = "\<lparr>status_code = 200, content = [], body_json = Some (JObj [(''videos'', JArr [])])\<rparr>"
  have 1: "net env_empty (length (requests world0)) (search_request cfg0 ''exercise motivation'' 15) = Inr ?resp"
    by (simp add: env_empty_def env0_def)
  have 2: "raise_for_status ?resp = None" by (simp add: raise_for_status_def)
  have 3: "body_json ?resp = Some (JObj [(''videos'', JArr [])])" by simp
  have 4: "dict_get (JObj [(''videos'', JArr [])]) ''videos'' (JArr []) = Inr (JArr [])" by simp
  have 5: "\<not> truthy (JArr [])" by simp
  show ?thesis
    using no_results_no_download [OF 1 2 3 4 5, of 0]
    by (simp add: world0_def)
qed

section \<open>Cleanup of the intermediate files\<close>

text \<open>
  Claim C7. The cleanup loop of \<open>run_pipeline\<close> over the downloaded, the processed
  and the thumbnail file does not raise when each of the three paths is a file or is
  missing; afterwards none of them exists, and running the loop a second time does not raise
  and leaves the files, and the rest of the state, as they are.
\<close>

theorem cleanup_idempotent:
  assumes "\<forall>p\<in>set [video_path, edited_path, thumbnail_path]. fs w p \<noteq> Some Dir"
  shows "fst (cleanup w [video_path, edited_path, thumbnail_path]) = Inr ()
       \<and> cleanup (snd (cleanup w [video_path, edited_path, thumbnail_path]))
           [video_path, edited_path, thumbnail_path]
         = (Inr (), snd (cleanup w [video_path, edited_path, thumbnail_path]))
       \<and> (\<forall>p\<in>set [video_path, edited_path, thumbnail_path].
            fs (snd (cleanup w [video_path, edited_path, thumbnail_path])) p = None)"
proof -
  let ?ps = "[video_path, edited_path, thumbnail_path]"
  from cleanup_succeeds [OF assms]
  have ok: "fst (cleanup w ?ps) = Inr ()"
    and gone: "\<forall>p\<in>set ?ps. fs (snd (cleanup w ?ps)) p = None" by auto
  from cleanup_missing [OF gone] ok gone show ?thesis by blast
qed

theorem cleanup_idempotent_witness:
  "fst (cleanup world_files [''content/pexels_7.mp4'', ''temp/processed.mp4'', ''temp/thumbnail.jpg'']) = Inr ()
   \<and> cleanup (snd (cleanup world_files [''content/pexels_7.mp4'', ''temp/processed.mp4'', ''temp/thumbnail.jpg'']))
        [''content/pexels_7.mp4'', ''temp/processed.mp4'', ''temp/thumbnail.jpg'']
      = (Inr (), snd (cleanup world_files [''content/pexels_7.mp4'', ''temp/processed.mp4'', ''temp/thumbnail.jpg'']))
   \<and> fs (snd (cleanup world_files [''content/pexels_7.mp4'', ''temp/processed.mp4'', ''temp/thumbnail.jpg'']))
        ''temp/processed.mp4'' = None
   \<and> fs world_files ''temp/processed.mp4'' = Some (File ''video'')
   \<and> fs world_files ''temp/thumbnail.jpg'' = None"
proof -
  have h: "\<forall>p\<in>set [''content/pexels_7.mp4'', ''temp/processed.mp4'', ''temp/thumbnail.jpg'']. fs world_files p \<noteq> Some Dir"
    by (simp add: world_files_def world0_def)
  have f: "fs world_files ''temp/processed.mp4'' = Some (File ''video'')" "fs world_files ''temp/thumbnail.jpg'' = None"
    by (simp_all add: world_files_def world0_def)
  from cleanup_idempotent [OF h] f show ?thesis by simp
qed

section \<open>The body of the upload request\<close>

text \<open>
  Claim C8. With a configuration made by \<open>Config\<close>, every \<open>videos().insert\<close>
  request that \<open>upload_video\<close> makes (it makes one as soon as the metadata has a title
  and the media file opens) has privacy status \<open>public\<close>, is declared not made for
  kids, has the category \<open>24\<close>, and has as description the description text, an empty
  line, the line \<open>#Shorts #Viral #Trending\<close> and the line of the hashtag made from the
  niche with its spaces removed.
\<close>

theorem upload_request_body:
  assumes "Config_init getenv = Inr cfg"
    and "upload_video e cfg w video_path md thumbnail_path = Some (r, w')"
  shows "\<exists>cs. api_calls w' = api_calls w @ cs
     \<and> (title md \<noteq> None \<and> media_file_upload e video_path = None
          \<longrightarrow> (\<exists>b rest. cs = VideosInsert ''snippet,status'' b video_path # rest))
     \<and> (\<forall>parts b p. VideosInsert parts b p \<in> set cs \<longrightarrow>
           privacyStatus (b_status b) = ''public''
         \<and> \<not> selfDeclaredMadeForKids (b_status b)
         \<and> categoryId (b_snippet b) = ''24''
         \<and> s_description (b_snippet b) =
             (case description md of None \<Rightarrow> [] | Some d \<Rightarrow> d) @ [CHR 0x0A, CHR 0x0A]
             @ ''#Shorts #Viral #Trending'' @ [CHR 0x0A]
             @ ''#'' @ filter (\<lambda>c. c \<noteq> CHR '' '')
                        (case niche md of None \<Rightarrow> ''content'' | Some n \<Rightarrow> n))"
proof (cases "build_body cfg md")
  case (Inl ex)
  then have "title md = None" by (auto simp: build_body_def split: option.splits)
  moreover from Inl assms(2) have "api_calls w' = api_calls w"
    by (auto simp: upload_video_def upload_steps_def logged_def logging_simps)
  ultimately show ?thesis by (intro exI [of _ "[]"]) simp
next
  case (Inr b)
  note props = build_body_props [OF Inr, unfolded Config_init_hashtags [OF assms(1)]]
  show ?thesis
  proof (cases "media_file_upload e video_path")
    case (Some ex)
    with Inr assms(2) have "api_calls w' = api_calls w"
      by (auto simp: upload_video_def upload_steps_def logged_def logging_simps)
    with Some show ?thesis by (intro exI [of _ "[]"]) simp
  next
    case None
    let ?c = "VideosInsert ''snippet,status'' b video_path"
    let ?w1 = "w\<lparr>api_calls := api_calls w @ [?c]\<rparr>"
    from Inr None assms(2) have "execute_upload e 0 ?w1 \<noteq> None"
      by (auto simp: upload_video_def upload_steps_def split: option.splits)
    then obtain rw where rw: "execute_upload e 0 ?w1 = Some rw" by blast
    with Inr None assms(2) have res: "(r, w') = logged ''Upload failed: ''
                  (case fst rw of Inl ex \<Rightarrow> (Inl ex, snd rw)
                   | Inr resp \<Rightarrow> attach_thumbnail e (snd rw) resp thumbnail_path)"
      by (cases "fst rw") (auto simp: upload_video_def upload_steps_def)
    from execute_upload_world [OF rw] have calls: "api_calls (snd rw) = api_calls w @ [?c]" by simp
    have "\<exists>cs'. api_calls w' = api_calls w @ ?c # cs' \<and> (\<forall>parts b p. VideosInsert parts b p \<notin> set cs')"
    proof (cases "fst rw")
      case (Inl ex)
      with res have "api_calls w' = api_calls (snd rw)"
        by (simp add: logged_def logging_simps)
      with calls show ?thesis by (intro exI [of _ "[]"]) simp
    next
      case (Inr resp)
      from attach_thumbnail_calls [of e "snd rw" resp thumbnail_path] obtain cs' where
        cs': "api_calls (snd (attach_thumbnail e (snd rw) resp thumbnail_path)) = api_calls (snd rw) @ cs'"
          "\<forall>parts b p. VideosInsert parts b p \<notin> set cs'" by blast
      from Inr res have "api_calls w' = api_calls (snd (attach_thumbnail e (snd rw) resp thumbnail_path))"
        using logged_simps(6) [of "''Upload failed: ''" "attach_thumbnail e (snd rw) resp thumbnail_path"]
        by (metis snd_conv sum.simps(6))
      with cs' calls show ?thesis by (intro exI [of _ cs']) simp
    qed
    then obtain cs' where cs': "api_calls w' = api_calls w @ ?c # cs'"
      "\<forall>parts b p. VideosInsert parts b p \<notin> set cs'" by blast
    show ?thesis
      using cs' props by (intro exI [of _ "?c # cs'"]) auto
  qed
qed

theorem upload_request_body_witness:
  "Config_init getenv0 = Inr cfg0
   \<and> (\<exists>w'. upload_video env0 cfg0 world0 ''temp/processed.mp4'' (make_metadata ''fitness'')
              (Some ''temp/thumbnail.jpg'') = Some (Inr (JStr ''abc123''), w')
        \<and> (\<exists>cs. api_calls w' = api_calls world0 @ cs
             \<and> (\<exists>b rest. cs = VideosInsert ''snippet,status'' b ''temp/processed.mp4'' # rest)
             \<and> (\<forall>parts b p. VideosInsert parts b p \<in> set cs \<longrightarrow>
                   privacyStatus (b_status b) = ''public''
                 \<and> \<not> selfDeclaredMadeForKids (b_status b)
                 \<and> categoryId (b_snippet b) = ''24''
                 \<and> s_description (b_snippet b) =
                     ''Amazing fitness tips you need to try!'' @ [CHR 0x0A, CHR 0x0A]
                     @ ''#Shorts #Viral #Trending'' @ [CHR 0x0A] @ ''#fitness'')))"
proof -
  have c: "Config_init getenv0 = Inr cfg0"
    by (simp add: Config_init_def getenv0_def cfg0_def validate_def truthy_str_def Let_def)
  from upload_env0 obtain w' where
    ev: "upload_video env0 cfg0 world0 ''temp/processed.mp4'' (make_metadata ''fitness'')
           (Some ''temp/thumbnail.jpg'') = Some (Inr (JStr ''abc123''), w')" by blast
  have m: "title (make_metadata ''fitness'') \<noteq> None \<and> media_file_upload env0 ''temp/processed.mp4'' = None"
    by (simp add: make_metadata_def env0_def)
  have d: "(case description (make_metadata ''fitness'') of None \<Rightarrow> [] | Some d \<Rightarrow> d)
             = ''Amazing fitness tips you need to try!''"
    "filter (\<lambda>c. c \<noteq> CHR '' '') (case niche (make_metadata ''fitness'') of None \<Rightarrow> ''content'' | Some n \<Rightarrow> n)
             = ''fitness''"
    by (simp_all add: make_metadata_def)
  from upload_request_body [OF c ev] m
  have "\<exists>cs. api_calls w' = api_calls world0 @ cs
             \<and> (\<exists>b rest. cs = VideosInsert ''snippet,status'' b ''temp/processed.mp4'' # rest)
             \<and> (\<forall>parts b p. VideosInsert parts b p \<in> set cs \<longrightarrow>
                   privacyStatus (b_status b) = ''public''
                 \<and> \<not> selfDeclaredMadeForKids (b_status b)
                 \<and> categoryId (b_snippet b) = ''24''
                 \<and> s_description (b_snippet b) =
                     ''Amazing fitness tips you need to try!'' @ [CHR 0x0A, CHR 0x0A]
                     @ ''#Shorts #Viral #Trending'' @ [CHR 0x0A] @ ''#fitness'')"
    unfolding d by simp
  with c ev show ?thesis by blast
qed

section \<open>The search request and the choice of a candidate\<close>

text \<open>
  Claim C9. Whatever the query and the target duration, the first request of
  \<open>get_pexels_video\<close> is the search with \<open>orientation = portrait\<close>,
  \<open>per_page = 20\<close>, \<open>min_duration = duration - 2\<close> and
  \<open>max_duration = duration + 2\<close>, and every later request is a download. When the
  result set is a non-empty list of candidates, the request after the search is the download
  of the candidate at the drawn position. The draw is one of the equally likely values
  below the number of candidates, and when the candidates have different addresses, each
  candidate is the one downloaded for exactly one of these values: each is selected with
  the same probability.
\<close>

theorem search_request_and_choice:
  "(\<exists>ds. requests (snd (get_pexels_video e cfg w r q d))
          = requests w
            @ SearchGet ''https://api.pexels.com/videos/search'' (pexels_api_key cfg)
                \<lparr>query = q, orientation = ''portrait'', per_page = 20,
                 min_duration = d - 2, max_duration = d + 2\<rparr>
            # ds
        \<and> list_all is_download ds \<and> length ds \<le> 3)
   \<and> (net e (length (requests w)) (search_request cfg q d) = Inr resp
        \<and> raise_for_status resp = None \<and> body_json resp = Some j
        \<and> dict_get j ''videos'' (JArr []) = Inr (JArr xs) \<and> xs \<noteq> []
      \<longrightarrow> get_pexels_video e cfg w r q d
            = logged ''Pexels video fetch failed: ''
                (fetch_selected e (w\<lparr>requests := requests w @ [search_request cfg q d]\<rparr>)
                   (xs ! (r mod length xs)))
          \<and> ((\<forall>v\<in>set xs. candidate_url e v \<noteq> None) \<longrightarrow>
               (\<exists>ds. requests (snd (get_pexels_video e cfg w r q d))
                  = requests w @ search_request cfg q d
                    # DownloadGet (the (candidate_url e (xs ! (r mod length xs)))) 10 # ds)
             \<and> (distinct (map (candidate_url e) xs) \<longrightarrow>
                  (\<forall>i<length xs.
                     {r'. r' < length xs
                        \<and> (\<exists>ds. requests (snd (get_pexels_video e cfg w r' q d))
                               = requests w @ search_request cfg q d
                                 # DownloadGet (the (candidate_url e (xs ! i))) 10 # ds)}
                     = {i}))))"
proof -
  let ?req = "search_request cfg q d"
  let ?w1 = "w\<lparr>requests := requests w @ [?req]\<rparr>"
  have base: "\<exists>ds. requests ?w1 = requests w @ ?req # ds \<and> list_all is_download ds \<and> length ds \<le> 3"
    by (intro exI [of _ "[]"]) simp
  have sel: "\<exists>ds. requests (snd (fetch_selected e ?w1 video)) = requests w @ ?req # ds
                \<and> list_all is_download ds \<and> length ds \<le> 3" for video
    using fetch_selected_requests [of e ?w1 video] by simp
  have A: "\<exists>ds. requests (snd (get_pexels_video e cfg w r q d)) = requests w @ ?req # ds
              \<and> list_all is_download ds \<and> length ds \<le> 3"
    unfolding get_pexels_video_def logged_simps Let_def
    using base sel by (simp split: sum.splits option.splits)
  from A have A': "\<exists>ds. requests (snd (get_pexels_video e cfg w r q d))
          = requests w
            @ SearchGet ''https://api.pexels.com/videos/search'' (pexels_api_key cfg)
                \<lparr>query = q, orientation = ''portrait'', per_page = 20,
                 min_duration = d - 2, max_duration = d + 2\<rparr>
            # ds
        \<and> list_all is_download ds \<and> length ds \<le> 3"
    by (simp add: search_request_def)
  have run: "get_pexels_video e cfg w k q d
            = logged ''Pexels video fetch failed: '' (fetch_selected e ?w1 (xs ! (k mod length xs)))"
    if "net e (length (requests w)) ?req = Inr resp" "raise_for_status resp = None"
       "body_json resp = Some j" "dict_get j ''videos'' (JArr []) = Inr (JArr xs)" "xs \<noteq> []"
    for k
    using that by (simp add: get_pexels_video_def Let_def choice_def)
  have B: "(\<exists>ds. requests (snd (get_pexels_video e cfg w r q d))
                  = requests w @ ?req
                    # DownloadGet (the (candidate_url e (xs ! (r mod length xs)))) 10 # ds)
          \<and> (distinct (map (candidate_url e) xs) \<longrightarrow>
               (\<forall>i<length xs.
                  {r'. r' < length xs
                     \<and> (\<exists>ds. requests (snd (get_pexels_video e cfg w r' q d))
                            = requests w @ ?req
                              # DownloadGet (the (candidate_url e (xs ! i))) 10 # ds)}
                  = {i}))"
    if h: "net e (length (requests w)) ?req = Inr resp" "raise_for_status resp = None"
       "body_json resp = Some j" "dict_get j ''videos'' (JArr []) = Inr (JArr xs)" "xs \<noteq> []"
       and wf: "\<forall>v\<in>set xs. candidate_url e v \<noteq> None"
  proof -
    note run = run [OF h]
    have fetched: "\<exists>ds. requests (snd (get_pexels_video e cfg w k q d))
                  = requests w @ ?req
                    # DownloadGet (the (candidate_url e (xs ! (k mod length xs)))) 10 # ds" for k
    proof -
      from h(5) have "xs ! (k mod length xs) \<in> set xs" by simp
      with wf obtain url where url: "candidate_url e (xs ! (k mod length xs)) = Some url" by blast
      from fetch_selected_first_request [OF url, of ?w1] url show ?thesis
        unfolding run logged_simps by simp
    qed
    have once: "{r'. r' < length xs
                   \<and> (\<exists>ds. requests (snd (get_pexels_video e cfg w r' q d))
                          = requests w @ ?req
                            # DownloadGet (the (candidate_url e (xs ! i))) 10 # ds)} = {i}"
      if dist: "distinct (map (candidate_url e) xs)" and i: "i < length xs" for i
    proof -
      have "(\<exists>ds. requests (snd (get_pexels_video e cfg w k q d))
                  = requests w @ ?req # DownloadGet (the (candidate_url e (xs ! i))) 10 # ds)
            \<longleftrightarrow> k = i" if k: "k < length xs" for k
      proof
        assume "\<exists>ds. requests (snd (get_pexels_video e cfg w k q d))
                  = requests w @ ?req # DownloadGet (the (candidate_url e (xs ! i))) 10 # ds"
        with fetched [of k] k
        have same: "the (candidate_url e (xs ! k)) = the (candidate_url e (xs ! i))" by auto
        from wf k i have "candidate_url e (xs ! k) \<noteq> None" "candidate_url e (xs ! i) \<noteq> None"
          by simp_all
        with same have "candidate_url e (xs ! k) = candidate_url e (xs ! i)" by auto
        with k i have "map (candidate_url e) xs ! k = map (candidate_url e) xs ! i" by simp
        moreover from dist k i
        have "(map (candidate_url e) xs ! k = map (candidate_url e) xs ! i) = (k = i)"
          by (intro nth_eq_iff_index_eq) simp_all
        ultimately show "k = i" by blast
      next
        assume "k = i"
        with fetched [of i] i show "\<exists>ds. requests (snd (get_pexels_video e cfg w k q d))
                  = requests w @ ?req # DownloadGet (the (candidate_url e (xs ! i))) 10 # ds"
          by simp
      qed
      with i show ?thesis by auto
    qed
    from fetched [of r] once show ?thesis by blast
  qed
  from A' run [of r] B show ?thesis by blast
qed

theorem search_request_and_choice_witness:
  "requests (snd (get_pexels_video env_three cfg0 world0 4 ''exercise motivation'' 15)) ! 0
     = SearchGet ''https://api.pexels.com/videos/search'' (Some ''key'')
         \<lparr>query = ''exercise motivation'', orientation = ''portrait'', per_page = 20,
          min_duration = 13, max_duration = 17\<rparr>
   \<and> requests (snd (get_pexels_video env_three cfg0 world0 4 ''exercise motivation'' 15)) ! 1
     = DownloadGet ''https://v/8.mp4'' 10
   \<and> {r'. r' < 3
          \<and> (\<exists>ds. requests (snd (get_pexels_video env_three cfg0 world0 r' ''exercise motivation'' 15))
                 = search_request cfg0 ''exercise motivation'' 15
                   # DownloadGet ''https://v/9.mp4'' 10 # ds)} = {2}"
proof -
  let ?xs = "[video_entry 7 ''https://v/7.mp4'', video_entry 8 ''https://v/8.mp4'', video_entry 9 ''https://v/9.mp4'']"
  let ?j = "JObj [(''videos'', JArr ?xs)]"
  let ?resp = "\<lparr>status_code = 200, content = [], body_json = Some ?j\<rparr>"
  have url: "candidate_url env_three (video_entry i l) = Some l" for i l
    by (simp add: candidate_url_def video_entry_def)
  have h1: "net env_three (length (requests world0)) (search_request cfg0 ''exercise motivation'' 15)
             = Inr ?resp"
    by (simp add: env_three_def search_request_def)
  have h2: "raise_for_status ?resp = None \<and> body_json ?resp = Some ?j
         \<and> dict_get ?j ''videos'' (JArr []) = Inr (JArr ?xs) \<and> ?xs \<noteq> []"
    by (simp add: raise_for_status_def)
  have h3: "\<forall>v\<in>set ?xs. candidate_url env_three v \<noteq> None"
    by (simp add: url)
  note h = conjI [OF h1 conjI [OF h2 h3]]
  have dist: "distinct (map (candidate_url env_three) ?xs)" by (simp add: url)
  have k: "pexels_api_key cfg0 = Some ''key''" by (simp add: cfg0_def)
  have w: "requests world0 = []" by (simp add: world0_def)
  have two: "(2::nat) < length ?xs" by simp
  note inst = search_request_and_choice
               [of env_three cfg0 world0 _ "''exercise motivation''" 15 ?resp ?j ?xs]
  from inst [of 4] h have first: "requests (snd (get_pexels_video env_three cfg0 world0 4 ''exercise motivation'' 15)) ! 0
     = SearchGet ''https://api.pexels.com/videos/search'' (Some ''key'')
         \<lparr>query = ''exercise motivation'', orientation = ''portrait'', per_page = 20,
          min_duration = 13, max_duration = 17\<rparr>"
    unfolding k w by auto
  from inst [of 4] h have "\<exists>ds. requests (snd (get_pexels_video env_three cfg0 world0 4 ''exercise motivation'' 15))
                  = requests world0 @ search_request cfg0 ''exercise motivation'' 15
                    # DownloadGet (the (candidate_url env_three (?xs ! (4 mod length ?xs)))) 10 # ds"
    by blast
  then have second: "requests (snd (get_pexels_video env_three cfg0 world0 4 ''exercise motivation'' 15)) ! 1
     = DownloadGet ''https://v/8.mp4'' 10"
    unfolding w by (auto simp: url)
  from inst [of 4] h dist two
  have "{r'. r' < length ?xs
          \<and> (\<exists>ds. requests (snd (get_pexels_video env_three cfg0 world0 r' ''exercise motivation'' 15))
                 = requests world0 @ search_request cfg0 ''exercise motivation'' 15
                   # DownloadGet (the (candidate_url env_three (?xs ! 2))) 10 # ds)} = {2}"
    by blast
  then have third: "{r'. r' < 3
          \<and> (\<exists>ds. requests (snd (get_pexels_video env_three cfg0 world0 r' ''exercise motivation'' 15))
                 = search_request cfg0 ''exercise motivation'' 15
                   # DownloadGet ''https://v/9.mp4'' 10 # ds)} = {2}"
    unfolding w by (simp add: url numeral_3_eq_3)
  from first second third show ?thesis by blast
qed

section \<open>A failed run keeps its files\<close>

text \<open>
  Claim C10. When \<open>run_pipeline\<close> raises, no file has been removed: the trace of
  removed files is as before the run, every file that existed before still exists, and every
  file written so far (the download, the processed video, the thumbnail) is on disk.
\<close>

theorem failed_run_keeps_files:
  assumes "run_pipeline e cfg w g n q = Some (Inl ex, w')"
  shows "unlinked w' = unlinked w
       \<and> dom (fs w) \<subseteq> dom (fs w')
       \<and> (set (written w) \<subseteq> dom (fs w) \<longrightarrow> set (written w') \<subseteq> dom (fs w'))"
proof -
  from run_pipeline_outcome [OF assms] have "no_loss w w'" by simp
  then show ?thesis by (auto simp: no_loss_def)
qed

theorem failed_run_keeps_files_witness:
  "\<exists>w'. run_pipeline env_abort cfg0 world0 rng0 ''fitness'' ''exercise motivation''
           = Some (Inl (LibraryError ''HttpError 503''), w')
       \<and> written w' = [''content/pexels_7.mp4'', ''temp/processed.mp4'', ''temp/thumbnail.jpg'']
       \<and> unlinked w' = []
       \<and> {''content/pexels_7.mp4'', ''temp/processed.mp4'', ''temp/thumbnail.jpg''} \<subseteq> dom (fs w')"
proof -
  from run_env_abort_written obtain w' where
    r: "run_pipeline env_abort cfg0 world0 rng0 ''fitness'' ''exercise motivation''
           = Some (Inl (LibraryError ''HttpError 503''), w')"
    and wr: "written w' = [''content/pexels_7.mp4'', ''temp/processed.mp4'', ''temp/thumbnail.jpg'']"
    by blast
  have w0: "unlinked world0 = []" "set (written world0) \<subseteq> dom (fs world0)"
    by (simp_all add: world0_def)
  from failed_run_keeps_files [OF r] w0
  have "unlinked w' = [] \<and> set (written w') \<subseteq> dom (fs w')" by simp
  with r wr show ?thesis by (intro exI [of _ w']) simp
qed

end
